theory Spec2Isabelle
  imports Complex_Main "HOL-Library.Multiset"
begin

section \<open>Book-spine detection of the advanced OCR pipeline\<close>

text \<open>
  A shallow embedding of the class \<^verbatim>\<open>AdvancedOCR\<close>: the orientation classifier
  \<^verbatim>\<open>determineOrientation\<close>, the region grouper \<^verbatim>\<open>groupWordsIntoRegions\<close>, the
  spine grouper \<^verbatim>\<open>detectBookSpines\<close> and the title cleanup \<^verbatim>\<open>cleanBookTitle\<close>.

  JavaScript numbers are modelled by the reals: coordinates and confidences are finite
  numbers and every operation the code applies to them (sum, difference, halving,
  comparison, minimum, maximum, square root) is taken exactly. A JavaScript string is
  the list of its UTF-16 code units, each a natural number; \<open>js\<close> turns an ASCII
  literal into such a list.

  The numeric tests of the classifier and of the two groupers depend on how the
  machine rounds. The last part of the definitions therefore gives these functions a
  second time, with the arithmetic as a parameter and IEEE 754 double precision as
  one instance of it; the properties of the tests are stated on that second model.
\<close>

subsection \<open>Data model\<close>

type_synonym jsstring = "nat list"

definition js :: "string \<Rightarrow> jsstring" where
  "js s = map of_char s"

datatype orientation = horizontal | vertical

record bbox =
  x0 :: real
  y0 :: real
  x1 :: real
  y1 :: real

record word =
  "text" :: jsstring
  confidence :: real
  bbox :: bbox

record textRegion =
  "text" :: jsstring
  confidence :: real
  bbox :: bbox
  orientation :: orientation
  words :: "word list"

record bookSpine =
  title :: jsstring
  confidence :: real
  bbox :: bbox
  orientation :: orientation
  textRegions :: "textRegion list"

text \<open>The invariant the data model states for a bounding box: \<open>x0 \<le> x1\<close> and \<open>y0 \<le> y1\<close>.\<close>

definition bbox_ok :: "bbox \<Rightarrow> bool" where
  "bbox_ok b = (x0 b \<le> x1 b \<and> y0 b \<le> y1 b)"

subsection \<open>Orientation classifier\<close>

text \<open>
  The body of the \<^verbatim>\<open>for (const word of words)\<close> loop, with the two scores as
  accumulators: the second test is the \<^verbatim>\<open>else if\<close> of the first.
\<close>

fun orientationScores :: "word list \<Rightarrow> real \<Rightarrow> real \<Rightarrow> real \<times> real" where
  "orientationScores [] horizontalScore verticalScore = (horizontalScore, verticalScore)"
| "orientationScores (w # ws) horizontalScore verticalScore =
     (let width = x1 (word.bbox w) - x0 (word.bbox w);
          height = y1 (word.bbox w) - y0 (word.bbox w)
      in if width > height * 1.5
         then orientationScores ws (horizontalScore + word.confidence w) verticalScore
         else if height > width * 1.5
         then orientationScores ws horizontalScore (verticalScore + word.confidence w)
         else orientationScores ws horizontalScore verticalScore)"

definition determineOrientation :: "word list \<Rightarrow> orientation" where
  "determineOrientation ws =
     (if length ws = 0 then horizontal
      else case orientationScores ws 0 0 of
        (horizontalScore, verticalScore) \<Rightarrow>
          if horizontalScore > verticalScore then horizontal else vertical)"

text \<open>
  The reference definition of the specification, written from its words: one score is
  the sum of the confidences of the words wider than 1.5 times their height, the other
  the sum over the words taller than 1.5 times their width.
\<close>

definition wordWidth :: "word \<Rightarrow> real" where
  "wordWidth w = x1 (word.bbox w) - x0 (word.bbox w)"

definition wordHeight :: "word \<Rightarrow> real" where
  "wordHeight w = y1 (word.bbox w) - y0 (word.bbox w)"

definition horizontalScore_spec :: "word list \<Rightarrow> real" where
  "horizontalScore_spec ws =
     sum_list (map word.confidence (filter (\<lambda>w. wordWidth w > 1.5 * wordHeight w) ws))"

definition verticalScore_spec :: "word list \<Rightarrow> real" where
  "verticalScore_spec ws =
     sum_list (map word.confidence (filter (\<lambda>w. wordHeight w > 1.5 * wordWidth w) ws))"

definition determineOrientation_spec :: "word list \<Rightarrow> orientation" where
  "determineOrientation_spec ws =
     (if ws = [] then horizontal
      else if horizontalScore_spec ws > verticalScore_spec ws then horizontal
      else vertical)"

subsection \<open>Region grouper\<close>

text \<open>The distance test between the seed word and a later word.\<close>

definition wordsClose :: "word \<Rightarrow> word \<Rightarrow> bool" where
  "wordsClose word1 word2 =
     (let centerX1 = (x0 (word.bbox word1) + x1 (word.bbox word1)) / 2;
          centerY1 = (y0 (word.bbox word1) + y1 (word.bbox word1)) / 2;
          centerX2 = (x0 (word.bbox word2) + x1 (word.bbox word2)) / 2;
          centerY2 = (y0 (word.bbox word2) + y1 (word.bbox word2)) / 2;
          distance = sqrt ((centerX2 - centerX1)\<^sup>2 + (centerY2 - centerY1)\<^sup>2);
          avgHeight = ((y1 (word.bbox word1) - y0 (word.bbox word1))
                     + (y1 (word.bbox word2) - y0 (word.bbox word2))) / 2
      in distance < avgHeight * 2)"

text \<open>The region a seed word starts, and the merge of a word into a region.\<close>

definition seedRegion :: "word \<Rightarrow> textRegion" where
  "seedRegion w =
     \<lparr> textRegion.text = word.text w,
       textRegion.confidence = word.confidence w,
       textRegion.bbox = word.bbox w,
       textRegion.orientation = determineOrientation [w],
       textRegion.words = [w] \<rparr>"

definition expandBox :: "bbox \<Rightarrow> bbox \<Rightarrow> bbox" where
  "expandBox b c =
     \<lparr> x0 = min (x0 b) (x0 c), y0 = min (y0 b) (y0 c),
       x1 = max (x1 b) (x1 c), y1 = max (y1 b) (y1 c) \<rparr>"

definition addWord :: "textRegion \<Rightarrow> word \<Rightarrow> textRegion" where
  "addWord region word2 =
     region\<lparr> textRegion.words := textRegion.words region @ [word2],
             textRegion.text := textRegion.text region @ 32 # word.text word2,
             textRegion.bbox := expandBox (textRegion.bbox region) (word.bbox word2),
             textRegion.confidence :=
               (textRegion.confidence region + word.confidence word2) / 2 \<rparr>"

text \<open>
  One pass of the inner loop \<^verbatim>\<open>for (let j = i + 1; j < words.length; j++)\<close>: the
  state is the region under construction and the set \<^verbatim>\<open>used\<close>.
\<close>

definition regionStep ::
  "word list \<Rightarrow> nat \<Rightarrow> nat \<Rightarrow> textRegion \<times> nat set \<Rightarrow> textRegion \<times> nat set" where
  "regionStep ws i j = (\<lambda>(region, used).
     if j \<in> used then (region, used)
     else if wordsClose (ws ! i) (ws ! j)
     then (addWord region (ws ! j), insert j used)
     else (region, used))"

definition growRegion :: "word list \<Rightarrow> nat \<Rightarrow> nat set \<Rightarrow> textRegion \<times> nat set" where
  "growRegion ws i used =
     fold (regionStep ws i) [i + 1 ..< length ws] (seedRegion (ws ! i), insert i used)"

text \<open>One pass of the outer loop: the state is the list of regions and \<^verbatim>\<open>used\<close>.\<close>

definition regionsStep ::
  "word list \<Rightarrow> nat \<Rightarrow> textRegion list \<times> nat set \<Rightarrow> textRegion list \<times> nat set" where
  "regionsStep ws i = (\<lambda>(regions, used).
     if i \<in> used then (regions, used)
     else case growRegion ws i used of
       (region, used') \<Rightarrow>
         (regions @ [region\<lparr> textRegion.orientation :=
                               determineOrientation (textRegion.words region) \<rparr>], used'))"

definition groupWordsIntoRegions :: "word list \<Rightarrow> textRegion list" where
  "groupWordsIntoRegions ws =
     (if length ws = 0 then []
      else fst (fold (regionsStep ws) [0 ..< length ws] ([], {})))"

subsection \<open>Title cleanup\<close>

text \<open>
  The character classes of the regular expressions, on code units: \<^verbatim>\<open>\s\<close> (the
  white space and line terminators of ECMAScript), \<^verbatim>\<open>\d\<close>, \<^verbatim>\<open>\w\<close> (letters,
  digits and the underscore), and the class \<^verbatim>\<open>[\w\s\-:&'.,]\<close> the second
  replacement keeps.
\<close>

definition isSpace :: "nat \<Rightarrow> bool" where
  "isSpace c = (c \<in> {9, 10, 11, 12, 13, 32, 160, 5760} \<union> {8192 .. 8202}
                  \<union> {8232, 8233, 8239, 8287, 12288, 65279})"

definition isDigit :: "nat \<Rightarrow> bool" where
  "isDigit c = (48 \<le> c \<and> c \<le> 57)"

definition isWordChar :: "nat \<Rightarrow> bool" where
  "isWordChar c = ((65 \<le> c \<and> c \<le> 90) \<or> (97 \<le> c \<and> c \<le> 122) \<or> isDigit c \<or> c = 95)"

definition isKept :: "nat \<Rightarrow> bool" where
  "isKept c = (isWordChar c \<or> isSpace c \<or> c = 45 \<or> c = 58 \<or> c = 38 \<or> c = 39
               \<or> c = 46 \<or> c = 44)"

text \<open>\<^verbatim>\<open>.replace(/\s+/g, ' ')\<close>: every maximal run of white space becomes one space.\<close>

function normalizeWhitespace :: "jsstring \<Rightarrow> jsstring" where
  "normalizeWhitespace [] = []"
| "normalizeWhitespace (c # cs) =
     (if isSpace c then 32 # normalizeWhitespace (dropWhile isSpace cs)
      else c # normalizeWhitespace cs)"
  by pat_completeness auto
termination
  by (relation "measure length") (auto simp: le_imp_less_Suc length_dropWhile_le)

text \<open>\<^verbatim>\<open>.replace(/[^\w\s\-:&'.,]/g, '')\<close>.\<close>

definition removeSpecial :: "jsstring \<Rightarrow> jsstring" where
  "removeSpecial s = filter isKept s"

text \<open>\<^verbatim>\<open>.replace(/^\d+\s*/, '')\<close>: matches only when the string starts with a digit.\<close>

definition removeLeadingNumber :: "jsstring \<Rightarrow> jsstring" where
  "removeLeadingNumber s =
     (if takeWhile isDigit s = [] then s
      else dropWhile isSpace (dropWhile isDigit s))"

definition trim :: "jsstring \<Rightarrow> jsstring" where
  "trim s = rev (dropWhile isSpace (rev (dropWhile isSpace s)))"

text \<open>\<^verbatim>\<open>.split(' ')\<close>: the empty string gives one empty token.\<close>

fun splitSpace :: "jsstring \<Rightarrow> jsstring list" where
  "splitSpace [] = [[]]"
| "splitSpace (c # cs) =
     (if c = 32 then [] # splitSpace cs
      else case splitSpace cs of
        [] \<Rightarrow> [[c]]
      | t # ts \<Rightarrow> (c # t) # ts)"

text \<open>\<^verbatim>\<open>.join(' ')\<close>.\<close>

fun joinSpace :: "jsstring list \<Rightarrow> jsstring" where
  "joinSpace [] = []"
| "joinSpace [t] = t"
| "joinSpace (t # ts) = t @ 32 # joinSpace ts"

definition cleanBookTitle :: "jsstring \<Rightarrow> jsstring" where
  "cleanBookTitle raw =
     joinSpace (filter (\<lambda>word. length word > 1)
       (splitSpace (trim (removeLeadingNumber (removeSpecial (normalizeWhitespace raw))))))"

subsection \<open>Spine grouper\<close>

text \<open>
  The test of the \<^verbatim>\<open>if\<close> that merges region \<open>j\<close> into the spine seeded at region
  \<open>i\<close>. \<^verbatim>\<open>isHorizontallyAligned\<close> is bound, as in the source, and not used.
\<close>

definition regionsAligned :: "textRegion \<Rightarrow> textRegion \<Rightarrow> bool" where
  "regionsAligned region1 region2 =
     (let isVerticallyAligned =
            \<bar>(x0 (textRegion.bbox region1) + x1 (textRegion.bbox region1)) / 2
             - (x0 (textRegion.bbox region2) + x1 (textRegion.bbox region2)) / 2\<bar> < 50;
          isHorizontallyAligned =
            \<bar>(y0 (textRegion.bbox region1) + y1 (textRegion.bbox region1)) / 2
             - (y0 (textRegion.bbox region2) + y1 (textRegion.bbox region2)) / 2\<bar> < 30;
          centerY1 = (y0 (textRegion.bbox region1) + y1 (textRegion.bbox region1)) / 2;
          centerY2 = (y0 (textRegion.bbox region2) + y1 (textRegion.bbox region2)) / 2;
          verticalDistance = \<bar>centerY2 - centerY1\<bar>;
          avgHeight = ((y1 (textRegion.bbox region1) - y0 (textRegion.bbox region1))
                     + (y1 (textRegion.bbox region2) - y0 (textRegion.bbox region2))) / 2
      in isVerticallyAligned \<and> verticalDistance < avgHeight * 3)"

definition seedSpine :: "textRegion \<Rightarrow> bookSpine" where
  "seedSpine r =
     \<lparr> bookSpine.title = textRegion.text r,
       bookSpine.confidence = textRegion.confidence r,
       bookSpine.bbox = textRegion.bbox r,
       bookSpine.orientation = textRegion.orientation r,
       bookSpine.textRegions = [r] \<rparr>"

definition addRegion :: "textRegion \<Rightarrow> bookSpine \<Rightarrow> textRegion \<Rightarrow> bookSpine" where
  "addRegion region1 spine region2 =
     spine\<lparr> bookSpine.textRegions := bookSpine.textRegions spine @ [region2],
            bookSpine.title :=
              (if y0 (textRegion.bbox region2) < y0 (textRegion.bbox region1)
               then textRegion.text region2 @ 32 # bookSpine.title spine
               else bookSpine.title spine @ 32 # textRegion.text region2),
            bookSpine.bbox := expandBox (bookSpine.bbox spine) (textRegion.bbox region2),
            bookSpine.confidence :=
              (bookSpine.confidence spine + textRegion.confidence region2) / 2 \<rparr>"

definition spineStep ::
  "textRegion list \<Rightarrow> nat \<Rightarrow> nat \<Rightarrow> bookSpine \<times> nat set \<Rightarrow> bookSpine \<times> nat set" where
  "spineStep rs i j = (\<lambda>(spine, used).
     if j \<in> used then (spine, used)
     else if regionsAligned (rs ! i) (rs ! j)
     then (addRegion (rs ! i) spine (rs ! j), insert j used)
     else (spine, used))"

definition growSpine :: "textRegion list \<Rightarrow> nat \<Rightarrow> nat set \<Rightarrow> bookSpine \<times> nat set" where
  "growSpine rs i used =
     fold (spineStep rs i) [i + 1 ..< length rs] (seedSpine (rs ! i), insert i used)"

definition cleanSpine :: "bookSpine \<Rightarrow> bookSpine" where
  "cleanSpine spine = spine\<lparr> bookSpine.title := cleanBookTitle (bookSpine.title spine) \<rparr>"

definition accepted :: "bookSpine \<Rightarrow> bool" where
  "accepted spine = (length (bookSpine.title spine) \<ge> 3 \<and> bookSpine.confidence spine > 30)"

definition spinesStep ::
  "textRegion list \<Rightarrow> nat \<Rightarrow> bookSpine list \<times> nat set \<Rightarrow> bookSpine list \<times> nat set" where
  "spinesStep rs i = (\<lambda>(spines, used).
     if i \<in> used then (spines, used)
     else case growSpine rs i used of
       (spine, used') \<Rightarrow>
         (if accepted (cleanSpine spine) then (spines @ [cleanSpine spine], used')
          else (spines, used')))"

definition spineCenterY :: "bookSpine \<Rightarrow> real" where
  "spineCenterY spine = (y0 (bookSpine.bbox spine) + y1 (bookSpine.bbox spine)) / 2"

text \<open>
  \<^verbatim>\<open>spines.sort((a, b) => centerYA - centerYB)\<close>: the sort of ECMAScript is stable, so
  the result is the stable sort by the key \<open>spineCenterY\<close>.
\<close>

definition detectBookSpines :: "textRegion list \<Rightarrow> bookSpine list" where
  "detectBookSpines rs =
     sort_key spineCenterY (fst (fold (spinesStep rs) [0 ..< length rs] ([], {})))"

text \<open>
  The candidates of the same scan, each as it stands after its merges and before the
  title cleanup and the acceptance test: the loop of \<open>detectBookSpines\<close> with every
  candidate kept. Lemma \<open>spines_of_candidates\<close> relates the two.
\<close>

definition candidatesStep ::
  "textRegion list \<Rightarrow> nat \<Rightarrow> bookSpine list \<times> nat set \<Rightarrow> bookSpine list \<times> nat set" where
  "candidatesStep rs i = (\<lambda>(spines, used).
     if i \<in> used then (spines, used)
     else case growSpine rs i used of
       (spine, used') \<Rightarrow> (spines @ [spine], used'))"

definition spineCandidates :: "textRegion list \<Rightarrow> bookSpine list" where
  "spineCandidates rs = fst (fold (candidatesStep rs) [0 ..< length rs] ([], {}))"

subsection \<open>Quantities the properties are stated with\<close>

text \<open>
  The indices the inner loops merge into the region, or the spine, seeded at index \<open>i\<close>
  when the scan of the later indices starts with the set \<open>used\<close>.
\<close>

definition mergedWords :: "word list \<Rightarrow> nat \<Rightarrow> nat set \<Rightarrow> nat list" where
  "mergedWords ws i used =
     filter (\<lambda>j. j \<notin> used \<and> wordsClose (ws ! i) (ws ! j)) [i + 1 ..< length ws]"

definition mergedRegions :: "textRegion list \<Rightarrow> nat \<Rightarrow> nat set \<Rightarrow> nat list" where
  "mergedRegions rs i used =
     filter (\<lambda>j. j \<notin> used \<and> regionsAligned (rs ! i) (rs ! j)) [i + 1 ..< length rs]"

text \<open>
  The Euclidean distance of the centres of two words' boxes and the mean of their
  heights, as the specification words the distance test.
\<close>

definition wordCenterX :: "word \<Rightarrow> real" where
  "wordCenterX w = (x0 (word.bbox w) + x1 (word.bbox w)) / 2"

definition wordCenterY :: "word \<Rightarrow> real" where
  "wordCenterY w = (y0 (word.bbox w) + y1 (word.bbox w)) / 2"

definition wordDistance :: "word \<Rightarrow> word \<Rightarrow> real" where
  "wordDistance w1 w2 =
     sqrt ((wordCenterX w2 - wordCenterX w1)\<^sup>2 + (wordCenterY w2 - wordCenterY w1)\<^sup>2)"

definition avgWordHeight :: "word \<Rightarrow> word \<Rightarrow> real" where
  "avgWordHeight w1 w2 = (wordHeight w1 + wordHeight w2) / 2"

text \<open>
  The merge condition of the spine grouper as the specification words it: the x-centres
  differ by less than 50 and the y-centres by less than 3 times the mean height.
\<close>

definition regionCenterX :: "textRegion \<Rightarrow> real" where
  "regionCenterX r = (x0 (textRegion.bbox r) + x1 (textRegion.bbox r)) / 2"

definition regionCenterY :: "textRegion \<Rightarrow> real" where
  "regionCenterY r = (y0 (textRegion.bbox r) + y1 (textRegion.bbox r)) / 2"

definition regionHeight :: "textRegion \<Rightarrow> real" where
  "regionHeight r = y1 (textRegion.bbox r) - y0 (textRegion.bbox r)"

definition mergeCondition :: "textRegion \<Rightarrow> textRegion \<Rightarrow> bool" where
  "mergeCondition r1 r2 =
     (\<bar>regionCenterX r1 - regionCenterX r2\<bar> < 50
      \<and> \<bar>regionCenterY r1 - regionCenterY r2\<bar> < 3 * ((regionHeight r1 + regionHeight r2) / 2))"

text \<open>
  The pre-cleanup title a candidate has by the insertion rule: the texts of the merged
  regions whose top lies above the seed's top, latest merge first, then the seed's text,
  then the texts of the other merged regions in merge order. And the title the regions
  would give in the order of their tops.
\<close>

definition spineTitleLayout :: "bookSpine \<Rightarrow> jsstring" where
  "spineTitleLayout s =
     (case bookSpine.textRegions s of
        [] \<Rightarrow> []
      | seed # merged \<Rightarrow>
          joinSpace
            (rev (map textRegion.text
                    (filter (\<lambda>r. y0 (textRegion.bbox r) < y0 (textRegion.bbox seed)) merged))
             @ [textRegion.text seed]
             @ map textRegion.text
                 (filter (\<lambda>r. \<not> y0 (textRegion.bbox r) < y0 (textRegion.bbox seed)) merged)))"

definition titleTopToBottom :: "bookSpine \<Rightarrow> jsstring" where
  "titleTopToBottom s =
     joinSpace (map textRegion.text
       (sort_key (\<lambda>r. y0 (textRegion.bbox r)) (bookSpine.textRegions s)))"

text \<open>
  Whether a string starts with a digit, which is when \<^verbatim>\<open>/^\d+\s*/\<close> matches; and the
  characters a cleaned title is made of, first as the specification lists them, then with
  the underscore that \<^verbatim>\<open>\w\<close> also matches.
\<close>

definition startsWithDigit :: "jsstring \<Rightarrow> bool" where
  "startsWithDigit s = (case s of [] \<Rightarrow> False | c # cs \<Rightarrow> isDigit c)"

definition listedTitleChar :: "nat \<Rightarrow> bool" where
  "listedTitleChar c =
     ((65 \<le> c \<and> c \<le> 90) \<or> (97 \<le> c \<and> c \<le> 122) \<or> (48 \<le> c \<and> c \<le> 57)
      \<or> c = 32 \<or> c = 45 \<or> c = 58 \<or> c = 38 \<or> c = 39 \<or> c = 46 \<or> c = 44)"

definition titleChar :: "nat \<Rightarrow> bool" where
  "titleChar c = (listedTitleChar c \<or> c = 95)"

subsection \<open>Example inputs\<close>

definition wideWord :: word where
  "wideWord = \<lparr> word.text = js ''Harry'', word.confidence = 90,
     word.bbox = \<lparr>x0 = 0, y0 = 0, x1 = 50, y1 = 20\<rparr> \<rparr>"

definition tallWord :: word where
  "tallWord = \<lparr> word.text = js ''Potter'', word.confidence = 90,
     word.bbox = \<lparr>x0 = 0, y0 = 30, x1 = 20, y1 = 80\<rparr> \<rparr>"

definition zeroAreaWord :: word where
  "zeroAreaWord = \<lparr> word.text = js ''ab'', word.confidence = 90,
     word.bbox = \<lparr>x0 = 5, y0 = 5, x1 = 5, y1 = 5\<rparr> \<rparr>"

definition flatWord :: word where
  "flatWord = \<lparr> word.text = js ''ab'', word.confidence = 90,
     word.bbox = \<lparr>x0 = 0, y0 = 5, x1 = 40, y1 = 5\<rparr> \<rparr>"

text \<open>The two words of the specification's scenario, 57.5 apart, and a closer pair.\<close>

definition harry :: word where
  "harry = \<lparr> word.text = js ''Harry'', word.confidence = 90,
     word.bbox = \<lparr>x0 = 0, y0 = 0, x1 = 50, y1 = 20\<rparr> \<rparr>"

definition potter :: word where
  "potter = \<lparr> word.text = js ''Potter'', word.confidence = 90,
     word.bbox = \<lparr>x0 = 55, y0 = 0, x1 = 110, y1 = 20\<rparr> \<rparr>"

definition harryNear :: word where
  "harryNear = \<lparr> word.text = js ''Harry'', word.confidence = 90,
     word.bbox = \<lparr>x0 = 0, y0 = 0, x1 = 30, y1 = 20\<rparr> \<rparr>"

definition potterNear :: word where
  "potterNear = \<lparr> word.text = js ''Potter'', word.confidence = 70,
     word.bbox = \<lparr>x0 = 32, y0 = 0, x1 = 62, y1 = 20\<rparr> \<rparr>"

definition potterAtThreshold :: word where
  "potterAtThreshold = \<lparr> word.text = js ''Potter'', word.confidence = 70,
     word.bbox = \<lparr>x0 = 40, y0 = 0, x1 = 70, y1 = 20\<rparr> \<rparr>"

text \<open>A region of one word, and four regions of a shelf photograph.\<close>

definition mkRegion :: "string \<Rightarrow> real \<Rightarrow> real \<Rightarrow> real \<Rightarrow> real \<Rightarrow> real \<Rightarrow> textRegion" where
  "mkRegion t a b c d cf =
     \<lparr> textRegion.text = js t, textRegion.confidence = cf,
       textRegion.bbox = \<lparr>x0 = a, y0 = b, x1 = c, y1 = d\<rparr>,
       textRegion.orientation = horizontal,
       textRegion.words = [\<lparr> word.text = js t, word.confidence = cf,
                              word.bbox = \<lparr>x0 = a, y0 = b, x1 = c, y1 = d\<rparr> \<rparr>] \<rparr>"

definition gammaRegion :: textRegion where
  "gammaRegion = mkRegion ''Gamma'' 0 100 20 140 90"

definition alphaRegion :: textRegion where
  "alphaRegion = mkRegion ''Alpha'' 0 50 20 90 80"

definition betaRegion :: textRegion where
  "betaRegion = mkRegion ''Beta'' 0 80 20 120 70"

definition sideRegion :: textRegion where
  "sideRegion = mkRegion ''Delta'' 50 100 70 140 70"

text \<open>Three regions far apart: a two-letter title, a confidence of exactly 30, and a good one.\<close>

definition shortRegion :: textRegion where
  "shortRegion = mkRegion ''ab'' 0 0 20 40 90"

definition lowRegion :: textRegion where
  "lowRegion = mkRegion ''Alpha'' 100 0 120 40 30"

definition goodRegion :: textRegion where
  "goodRegion = mkRegion ''Gamma'' 200 0 220 40 90"

section \<open>The numeric functions over the arithmetic of the machine\<close>

subsection \<open>Arithmetic as a parameter\<close>

text \<open>
  The operations the code applies to numbers where a result is compared with a
  threshold: \<^verbatim>\<open>+\<close>, \<^verbatim>\<open>-\<close>, \<^verbatim>\<open>*\<close>, \<^verbatim>\<open>/\<close>, \<^verbatim>\<open>Math.sqrt\<close> and \<^verbatim>\<open>Math.pow(x, 2)\<close>.
  Comparison, absolute value, minimum and maximum are exact on every machine and
  stay outside the record.
\<close>

record arith =
  fadd :: "real \<Rightarrow> real \<Rightarrow> real"
  fsub :: "real \<Rightarrow> real \<Rightarrow> real"
  fmul :: "real \<Rightarrow> real \<Rightarrow> real"
  fdiv :: "real \<Rightarrow> real \<Rightarrow> real"
  fsqrt :: "real \<Rightarrow> real"
  fpow2 :: "real \<Rightarrow> real"

definition exact :: arith where
  "exact = \<lparr> fadd = (\<lambda>a b. a + b), fsub = (\<lambda>a b. a - b), fmul = (\<lambda>a b. a * b),
             fdiv = (\<lambda>a b. a / b), fsqrt = sqrt, fpow2 = (\<lambda>a. a\<^sup>2) \<rparr>"

text \<open>
  IEEE 754 double precision, rounding to nearest with ties to even. A finite double is
  an integer multiple of the quantum of its binade, \<open>2\<close> to the power \<open>e - 52\<close> for
  a number with exponent \<open>e\<close>, and of \<open>2\<close> to the power \<open>-1074\<close> below the least
  normal number. \<open>fl64 x\<close> is the multiple of the quantum of \<open>x\<close> nearest to \<open>x\<close>; a
  result that rounds up to the next power of two is that power. Overflow to infinity
  and NaN are not modelled: the numbers of the pipeline are pixel coordinates and
  confidences. Every operation is the exact operation followed by one rounding;
  \<^verbatim>\<open>Math.pow(x, 2)\<close> is taken as the rounded square.
\<close>

definition roundHalfEven :: "real \<Rightarrow> int" where
  "roundHalfEven y =
     (let f = \<lfloor>y\<rfloor>; r = y - of_int f
      in if r < 1 / 2 then f else if r > 1 / 2 then f + 1 else if even f then f else f + 1)"

definition quantum :: "real \<Rightarrow> real" where
  "quantum x = 2 powr (of_int (max \<lfloor>log 2 \<bar>x\<bar>\<rfloor> (- 1022)) - 52)"

definition fl64 :: "real \<Rightarrow> real" where
  "fl64 x = (if x = 0 then 0 else of_int (roundHalfEven (x / quantum x)) * quantum x)"

definition binary64 :: arith where
  "binary64 = \<lparr> fadd = (\<lambda>a b. fl64 (a + b)), fsub = (\<lambda>a b. fl64 (a - b)),
                fmul = (\<lambda>a b. fl64 (a * b)), fdiv = (\<lambda>a b. fl64 (a / b)),
                fsqrt = (\<lambda>a. fl64 (sqrt a)), fpow2 = (\<lambda>a. fl64 (a * a)) \<rparr>"

text \<open>The numbers that are doubles, and the boxes whose four coordinates are.\<close>

definition isDouble :: "real \<Rightarrow> bool" where
  "isDouble x = (fl64 x = x)"

definition boxDoubles :: "bbox \<Rightarrow> bool" where
  "boxDoubles b = (isDouble (x0 b) \<and> isDouble (y0 b) \<and> isDouble (x1 b) \<and> isDouble (y1 b))"

subsection \<open>Orientation classifier\<close>

text \<open>
  \<^verbatim>\<open>determineOrientation\<close> again, each operation of the source through the
  parameter.
\<close>

fun orientationScores_with :: "arith \<Rightarrow> word list \<Rightarrow> real \<Rightarrow> real \<Rightarrow> real \<times> real" where
  "orientationScores_with ar [] horizontalScore verticalScore = (horizontalScore, verticalScore)"
| "orientationScores_with ar (w # ws) horizontalScore verticalScore =
     (let width = fsub ar (x1 (word.bbox w)) (x0 (word.bbox w));
          height = fsub ar (y1 (word.bbox w)) (y0 (word.bbox w))
      in if width > fmul ar height 1.5
         then orientationScores_with ar ws (fadd ar horizontalScore (word.confidence w)) verticalScore
         else if height > fmul ar width 1.5
         then orientationScores_with ar ws horizontalScore (fadd ar verticalScore (word.confidence w))
         else orientationScores_with ar ws horizontalScore verticalScore)"

definition determineOrientation_with :: "arith \<Rightarrow> word list \<Rightarrow> orientation" where
  "determineOrientation_with ar ws =
     (if length ws = 0 then horizontal
      else case orientationScores_with ar ws 0 0 of
        (horizontalScore, verticalScore) \<Rightarrow>
          if horizontalScore > verticalScore then horizontal else vertical)"

text \<open>
  The reference definition of the specification in the same arithmetic: the two tests
  on a word, and the two scores as the sums, in input order, of the confidences of
  the words that pass them. \<open>verticalScoreElse_with\<close> is the vertical score of the
  words that fail the first test.
\<close>

definition wordWidth_with :: "arith \<Rightarrow> word \<Rightarrow> real" where
  "wordWidth_with ar w = fsub ar (x1 (word.bbox w)) (x0 (word.bbox w))"

definition wordHeight_with :: "arith \<Rightarrow> word \<Rightarrow> real" where
  "wordHeight_with ar w = fsub ar (y1 (word.bbox w)) (y0 (word.bbox w))"

definition isWide_with :: "arith \<Rightarrow> word \<Rightarrow> bool" where
  "isWide_with ar w = (wordWidth_with ar w > fmul ar (wordHeight_with ar w) 1.5)"

definition isTall_with :: "arith \<Rightarrow> word \<Rightarrow> bool" where
  "isTall_with ar w = (wordHeight_with ar w > fmul ar (wordWidth_with ar w) 1.5)"

definition horizontalScore_with :: "arith \<Rightarrow> word list \<Rightarrow> real" where
  "horizontalScore_with ar ws =
     foldl (fadd ar) 0 (map word.confidence (filter (isWide_with ar) ws))"

definition verticalScore_with :: "arith \<Rightarrow> word list \<Rightarrow> real" where
  "verticalScore_with ar ws =
     foldl (fadd ar) 0 (map word.confidence (filter (isTall_with ar) ws))"

definition verticalScoreElse_with :: "arith \<Rightarrow> word list \<Rightarrow> real" where
  "verticalScoreElse_with ar ws =
     foldl (fadd ar) 0
       (map word.confidence (filter (\<lambda>w. \<not> isWide_with ar w \<and> isTall_with ar w) ws))"

definition determineOrientation_spec_with :: "arith \<Rightarrow> word list \<Rightarrow> orientation" where
  "determineOrientation_spec_with ar ws =
     (if ws = [] then horizontal
      else if horizontalScore_with ar ws > verticalScore_with ar ws then horizontal
      else vertical)"

subsection \<open>Region grouper\<close>

definition wordsClose_with :: "arith \<Rightarrow> word \<Rightarrow> word \<Rightarrow> bool" where
  "wordsClose_with ar word1 word2 =
     (let centerX1 = fdiv ar (fadd ar (x0 (word.bbox word1)) (x1 (word.bbox word1))) 2;
          centerY1 = fdiv ar (fadd ar (y0 (word.bbox word1)) (y1 (word.bbox word1))) 2;
          centerX2 = fdiv ar (fadd ar (x0 (word.bbox word2)) (x1 (word.bbox word2))) 2;
          centerY2 = fdiv ar (fadd ar (y0 (word.bbox word2)) (y1 (word.bbox word2))) 2;
          distance = fsqrt ar (fadd ar (fpow2 ar (fsub ar centerX2 centerX1))
                                       (fpow2 ar (fsub ar centerY2 centerY1)));
          avgHeight = fdiv ar (fadd ar (fsub ar (y1 (word.bbox word1)) (y0 (word.bbox word1)))
                                       (fsub ar (y1 (word.bbox word2)) (y0 (word.bbox word2)))) 2
      in distance < fmul ar avgHeight 2)"

definition seedRegion_with :: "arith \<Rightarrow> word \<Rightarrow> textRegion" where
  "seedRegion_with ar w =
     \<lparr> textRegion.text = word.text w,
       textRegion.confidence = word.confidence w,
       textRegion.bbox = word.bbox w,
       textRegion.orientation = determineOrientation_with ar [w],
       textRegion.words = [w] \<rparr>"

definition addWord_with :: "arith \<Rightarrow> textRegion \<Rightarrow> word \<Rightarrow> textRegion" where
  "addWord_with ar region word2 =
     region\<lparr> textRegion.words := textRegion.words region @ [word2],
             textRegion.text := textRegion.text region @ 32 # word.text word2,
             textRegion.bbox := expandBox (textRegion.bbox region) (word.bbox word2),
             textRegion.confidence :=
               fdiv ar (fadd ar (textRegion.confidence region) (word.confidence word2)) 2 \<rparr>"

definition regionStep_with ::
  "arith \<Rightarrow> word list \<Rightarrow> nat \<Rightarrow> nat \<Rightarrow> textRegion \<times> nat set \<Rightarrow> textRegion \<times> nat set" where
  "regionStep_with ar ws i j = (\<lambda>(region, used).
     if j \<in> used then (region, used)
     else if wordsClose_with ar (ws ! i) (ws ! j)
     then (addWord_with ar region (ws ! j), insert j used)
     else (region, used))"

definition growRegion_with ::
  "arith \<Rightarrow> word list \<Rightarrow> nat \<Rightarrow> nat set \<Rightarrow> textRegion \<times> nat set" where
  "growRegion_with ar ws i used =
     fold (regionStep_with ar ws i) [i + 1 ..< length ws]
       (seedRegion_with ar (ws ! i), insert i used)"

definition regionsStep_with ::
  "arith \<Rightarrow> word list \<Rightarrow> nat \<Rightarrow> textRegion list \<times> nat set \<Rightarrow> textRegion list \<times> nat set" where
  "regionsStep_with ar ws i = (\<lambda>(regions, used).
     if i \<in> used then (regions, used)
     else case growRegion_with ar ws i used of
       (region, used') \<Rightarrow>
         (regions @ [region\<lparr> textRegion.orientation :=
                               determineOrientation_with ar (textRegion.words region) \<rparr>], used'))"

definition groupWordsIntoRegions_with :: "arith \<Rightarrow> word list \<Rightarrow> textRegion list" where
  "groupWordsIntoRegions_with ar ws =
     (if length ws = 0 then []
      else fst (fold (regionsStep_with ar ws) [0 ..< length ws] ([], {})))"

subsection \<open>Spine grouper\<close>

text \<open>
  \<open>expandBox\<close>, \<open>seedSpine\<close>, \<open>cleanSpine\<close> and \<open>accepted\<close> do no arithmetic that
  rounds and are the ones above.
\<close>

definition regionsAligned_with :: "arith \<Rightarrow> textRegion \<Rightarrow> textRegion \<Rightarrow> bool" where
  "regionsAligned_with ar region1 region2 =
     (let isVerticallyAligned =
            \<bar>fsub ar
               (fdiv ar (fadd ar (x0 (textRegion.bbox region1)) (x1 (textRegion.bbox region1))) 2)
               (fdiv ar (fadd ar (x0 (textRegion.bbox region2)) (x1 (textRegion.bbox region2))) 2)\<bar>
              < 50;
          isHorizontallyAligned =
            \<bar>fsub ar
               (fdiv ar (fadd ar (y0 (textRegion.bbox region1)) (y1 (textRegion.bbox region1))) 2)
               (fdiv ar (fadd ar (y0 (textRegion.bbox region2)) (y1 (textRegion.bbox region2))) 2)\<bar>
              < 30;
          centerY1 = fdiv ar (fadd ar (y0 (textRegion.bbox region1)) (y1 (textRegion.bbox region1))) 2;
          centerY2 = fdiv ar (fadd ar (y0 (textRegion.bbox region2)) (y1 (textRegion.bbox region2))) 2;
          verticalDistance = \<bar>fsub ar centerY2 centerY1\<bar>;
          avgHeight =
            fdiv ar (fadd ar (fsub ar (y1 (textRegion.bbox region1)) (y0 (textRegion.bbox region1)))
                             (fsub ar (y1 (textRegion.bbox region2)) (y0 (textRegion.bbox region2)))) 2
      in isVerticallyAligned \<and> verticalDistance < fmul ar avgHeight 3)"

definition addRegion_with :: "arith \<Rightarrow> textRegion \<Rightarrow> bookSpine \<Rightarrow> textRegion \<Rightarrow> bookSpine" where
  "addRegion_with ar region1 spine region2 =
     spine\<lparr> bookSpine.textRegions := bookSpine.textRegions spine @ [region2],
            bookSpine.title :=
              (if y0 (textRegion.bbox region2) < y0 (textRegion.bbox region1)
               then textRegion.text region2 @ 32 # bookSpine.title spine
               else bookSpine.title spine @ 32 # textRegion.text region2),
            bookSpine.bbox := expandBox (bookSpine.bbox spine) (textRegion.bbox region2),
            bookSpine.confidence :=
              fdiv ar (fadd ar (bookSpine.confidence spine) (textRegion.confidence region2)) 2 \<rparr>"

definition spineStep_with ::
  "arith \<Rightarrow> textRegion list \<Rightarrow> nat \<Rightarrow> nat \<Rightarrow> bookSpine \<times> nat set \<Rightarrow> bookSpine \<times> nat set" where
  "spineStep_with ar rs i j = (\<lambda>(spine, used).
     if j \<in> used then (spine, used)
     else if regionsAligned_with ar (rs ! i) (rs ! j)
     then (addRegion_with ar (rs ! i) spine (rs ! j), insert j used)
     else (spine, used))"

definition growSpine_with ::
  "arith \<Rightarrow> textRegion list \<Rightarrow> nat \<Rightarrow> nat set \<Rightarrow> bookSpine \<times> nat set" where
  "growSpine_with ar rs i used =
     fold (spineStep_with ar rs i) [i + 1 ..< length rs] (seedSpine (rs ! i), insert i used)"

definition spinesStep_with ::
  "arith \<Rightarrow> textRegion list \<Rightarrow> nat \<Rightarrow> bookSpine list \<times> nat set \<Rightarrow> bookSpine list \<times> nat set" where
  "spinesStep_with ar rs i = (\<lambda>(spines, used).
     if i \<in> used then (spines, used)
     else case growSpine_with ar rs i used of
       (spine, used') \<Rightarrow>
         (if accepted (cleanSpine spine) then (spines @ [cleanSpine spine], used')
          else (spines, used')))"

definition spineCenterY_with :: "arith \<Rightarrow> bookSpine \<Rightarrow> real" where
  "spineCenterY_with ar spine =
     fdiv ar (fadd ar (y0 (bookSpine.bbox spine)) (y1 (bookSpine.bbox spine))) 2"

definition detectBookSpines_with :: "arith \<Rightarrow> textRegion list \<Rightarrow> bookSpine list" where
  "detectBookSpines_with ar rs =
     sort_key (spineCenterY_with ar)
       (fst (fold (spinesStep_with ar rs) [0 ..< length rs] ([], {})))"

definition candidatesStep_with ::
  "arith \<Rightarrow> textRegion list \<Rightarrow> nat \<Rightarrow> bookSpine list \<times> nat set \<Rightarrow> bookSpine list \<times> nat set" where
  "candidatesStep_with ar rs i = (\<lambda>(spines, used).
     if i \<in> used then (spines, used)
     else case growSpine_with ar rs i used of
       (spine, used') \<Rightarrow> (spines @ [spine], used'))"

definition spineCandidates_with :: "arith \<Rightarrow> textRegion list \<Rightarrow> bookSpine list" where
  "spineCandidates_with ar rs = fst (fold (candidatesStep_with ar rs) [0 ..< length rs] ([], {}))"

subsection \<open>Quantities the properties of the tests are stated with\<close>

text \<open>
  The grouping both loops compute, on indices: the first index takes every later
  index near it, and the scan goes on with the indices left over.
\<close>

function greedyGroups :: "(nat \<Rightarrow> nat \<Rightarrow> bool) \<Rightarrow> nat list \<Rightarrow> nat list list" where
  "greedyGroups near [] = []"
| "greedyGroups near (i # ks) =
     (i # filter (near i) ks) # greedyGroups near (filter (\<lambda>j. \<not> near i j) ks)"
  by pat_completeness auto
termination
  by (relation "measure (\<lambda>(near, ks). length ks)") (auto simp: le_imp_less_Suc)

text \<open>
  The centres of a word's box, the distance of two centres and the mean of two
  heights, as the code computes them.
\<close>

definition wordCenterX_with :: "arith \<Rightarrow> word \<Rightarrow> real" where
  "wordCenterX_with ar w = fdiv ar (fadd ar (x0 (word.bbox w)) (x1 (word.bbox w))) 2"

definition wordCenterY_with :: "arith \<Rightarrow> word \<Rightarrow> real" where
  "wordCenterY_with ar w = fdiv ar (fadd ar (y0 (word.bbox w)) (y1 (word.bbox w))) 2"

definition wordDistance_with :: "arith \<Rightarrow> word \<Rightarrow> word \<Rightarrow> real" where
  "wordDistance_with ar w1 w2 =
     fsqrt ar (fadd ar (fpow2 ar (fsub ar (wordCenterX_with ar w2) (wordCenterX_with ar w1)))
                       (fpow2 ar (fsub ar (wordCenterY_with ar w2) (wordCenterY_with ar w1))))"

definition avgWordHeight_with :: "arith \<Rightarrow> word \<Rightarrow> word \<Rightarrow> real" where
  "avgWordHeight_with ar w1 w2 = fdiv ar (fadd ar (wordHeight_with ar w1) (wordHeight_with ar w2)) 2"

text \<open>The same for regions, and the merge condition of the spine grouper.\<close>

definition regionCenterX_with :: "arith \<Rightarrow> textRegion \<Rightarrow> real" where
  "regionCenterX_with ar r = fdiv ar (fadd ar (x0 (textRegion.bbox r)) (x1 (textRegion.bbox r))) 2"

definition regionCenterY_with :: "arith \<Rightarrow> textRegion \<Rightarrow> real" where
  "regionCenterY_with ar r = fdiv ar (fadd ar (y0 (textRegion.bbox r)) (y1 (textRegion.bbox r))) 2"

definition regionHeight_with :: "arith \<Rightarrow> textRegion \<Rightarrow> real" where
  "regionHeight_with ar r = fsub ar (y1 (textRegion.bbox r)) (y0 (textRegion.bbox r))"

definition mergeCondition_with :: "arith \<Rightarrow> textRegion \<Rightarrow> textRegion \<Rightarrow> bool" where
  "mergeCondition_with ar r1 r2 =
     (\<bar>fsub ar (regionCenterX_with ar r1) (regionCenterX_with ar r2)\<bar> < 50
      \<and> \<bar>fsub ar (regionCenterY_with ar r2) (regionCenterY_with ar r1)\<bar>
          < fmul ar (fdiv ar (fadd ar (regionHeight_with ar r1) (regionHeight_with ar r2)) 2) 3)"

subsection \<open>Example inputs\<close>

text \<open>
  A word whose box has its corners exchanged, and a word of width
  \<open>1.5000000000000004\<close> and height \<open>1.0000000000000002\<close>.
\<close>

definition negWord :: word where
  "negWord = \<lparr> word.text = js ''ab'', word.confidence = 90,
     word.bbox = \<lparr>x0 = 10, y0 = 10, x1 = 0, y1 = 0\<rparr> \<rparr>"

definition roundWord :: word where
  "roundWord = \<lparr> word.text = js ''ab'', word.confidence = 90,
     word.bbox = \<lparr>x0 = 0, y0 = 0, x1 = 3 / 2 + 1 / 2 ^ 51, y1 = 1 + 1 / 2 ^ 52\<rparr> \<rparr>"

text \<open>
  Two words with centres \<open>(1, 0.5)\<close> and \<open>(2, 1.5)\<close>, the square root of 2 apart,
  whose heights add up to the double nearest to the square root of 2.
\<close>

definition sqrtWordA :: word where
  "sqrtWordA = \<lparr> word.text = js ''Harry'', word.confidence = 90,
     word.bbox = \<lparr>x0 = 0, y0 = 2638147582215219 / 2 ^ 53,
                  x1 = 2, y1 = 6369051672525773 / 2 ^ 53\<rparr> \<rparr>"

definition sqrtWordB :: word where
  "sqrtWordB = \<lparr> word.text = js ''Potter'', word.confidence = 90,
     word.bbox = \<lparr>x0 = 1, y0 = 1, x1 = 3, y1 = 2\<rparr> \<rparr>"

text \<open>Two regions whose x-centres are exactly 50 apart.\<close>

definition roundRegionA :: textRegion where
  "roundRegionA =
     \<lparr> textRegion.text = js ''Alpha'', textRegion.confidence = 90,
       textRegion.bbox = \<lparr>x0 = 19, y0 = 0, x1 = 21 + 1 / 2 ^ 46, y1 = 40\<rparr>,
       textRegion.orientation = vertical, textRegion.words = [] \<rparr>"

definition roundRegionB :: textRegion where
  "roundRegionB =
     \<lparr> textRegion.text = js ''Gamma'', textRegion.confidence = 90,
       textRegion.bbox = \<lparr>x0 = 69, y0 = 0, x1 = 71 + 1 / 2 ^ 46, y1 = 40\<rparr>,
       textRegion.orientation = vertical, textRegion.words = [] \<rparr>"

section \<open>Properties\<close>

subsection \<open>Orientation classifier\<close>

text \<open>
  Claim C9, as stated, fails: a word whose box has zero height and zero width passes
  neither test, both scores stay 0 and the result for this single word is vertical.
\<close>

theorem zero_area_word_counterexample:
  "y1 (word.bbox zeroAreaWord) = y0 (word.bbox zeroAreaWord)
   \<and> orientationScores [zeroAreaWord] 0 0 = (0, 0)
   \<and> determineOrientation [zeroAreaWord] = vertical"
  by (simp add: zeroAreaWord_def determineOrientation_def)

text \<open>
  Claim C9, amended: a word whose box has zero height adds its confidence to the
  horizontal score when its width is positive, and to neither score when its width is
  zero; a single word with a zero-height box gives horizontal exactly when its width and
  its confidence are both positive (or, on a box with \<open>x1 < x0\<close>, both negative). The
  classifier only compares and adds, so it is total.
\<close>

theorem zero_height_word_orientation:
  assumes "y1 (word.bbox w) = y0 (word.bbox w)"
  shows "(x0 (word.bbox w) < x1 (word.bbox w) \<longrightarrow>
            orientationScores (w # ws) h v = orientationScores ws (h + word.confidence w) v)
       \<and> (x0 (word.bbox w) = x1 (word.bbox w) \<longrightarrow>
            orientationScores (w # ws) h v = orientationScores ws h v)
       \<and> (determineOrientation [w] = horizontal \<longleftrightarrow>
            (x0 (word.bbox w) < x1 (word.bbox w) \<and> 0 < word.confidence w)
          \<or> (x1 (word.bbox w) < x0 (word.bbox w) \<and> word.confidence w < 0))"
  using assms by (auto simp: determineOrientation_def Let_def)

theorem zero_height_word_orientation_witness:
  "y1 (word.bbox flatWord) = y0 (word.bbox flatWord)
   \<and> x0 (word.bbox flatWord) < x1 (word.bbox flatWord)
   \<and> orientationScores [flatWord] 0 0 = (90, 0)
   \<and> determineOrientation [flatWord] = horizontal"
proof -
  have z: "y1 (word.bbox flatWord) = y0 (word.bbox flatWord)"
    by (simp add: flatWord_def)
  have w: "x0 (word.bbox flatWord) < x1 (word.bbox flatWord)"
    by (simp add: flatWord_def)
  have c: "word.confidence flatWord = 90"
    by (simp add: flatWord_def)
  show ?thesis
    using z w c zero_height_word_orientation [OF z, of "[]" 0 0] by simp
qed

subsection \<open>The inner loops as folds over the merged indices\<close>

lemma regionStep_apply:
  "regionStep ws i j (r, u) =
     (if j \<in> u then (r, u)
      else if wordsClose (ws ! i) (ws ! j) then (addWord r (ws ! j), insert j u)
      else (r, u))"
  by (simp add: regionStep_def)

lemma fold_regionStep:
  assumes "distinct ks"
  shows "fold (regionStep ws i) ks (r, u) =
     (foldl addWord r (map ((!) ws) (filter (\<lambda>j. j \<notin> u \<and> wordsClose (ws ! i) (ws ! j)) ks)),
      u \<union> set (filter (\<lambda>j. j \<notin> u \<and> wordsClose (ws ! i) (ws ! j)) ks))"
  using assms
proof (induction ks arbitrary: r u)
  case Nil
  show ?case by simp
next
  case (Cons j ks)
  have d: "distinct ks" and nj: "j \<notin> set ks"
    using Cons.prems by simp_all
  have same: "filter (\<lambda>k. k \<noteq> j \<and> k \<notin> u \<and> wordsClose (ws ! i) (ws ! k)) ks
            = filter (\<lambda>k. k \<notin> u \<and> wordsClose (ws ! i) (ws ! k)) ks"
    using nj by (intro filter_cong) auto
  have same_set: "{k \<in> set ks. k \<noteq> j \<and> k \<notin> u \<and> wordsClose (ws ! i) (ws ! k)}
            = {k \<in> set ks. k \<notin> u \<and> wordsClose (ws ! i) (ws ! k)}"
    using nj by auto
  show ?case
    by (simp add: regionStep_apply Cons.IH [OF d] same same_set)
qed

lemma growRegion_eq:
  "growRegion ws i used =
     (foldl addWord (seedRegion (ws ! i)) (map ((!) ws) (mergedWords ws i used)),
      insert i used \<union> set (mergedWords ws i used))"
proof -
  have "filter (\<lambda>j. j \<notin> insert i used \<and> wordsClose (ws ! i) (ws ! j)) [i + 1 ..< length ws]
      = mergedWords ws i used"
    unfolding mergedWords_def by (intro filter_cong) auto
  then show ?thesis
    by (simp add: growRegion_def fold_regionStep)
qed

lemma words_foldl_addWord:
  "textRegion.words (foldl addWord r xs) = textRegion.words r @ xs"
  by (induction xs arbitrary: r) (simp_all add: addWord_def)


lemma spineStep_apply:
  "spineStep rs i j (s, u) =
     (if j \<in> u then (s, u)
      else if regionsAligned (rs ! i) (rs ! j) then (addRegion (rs ! i) s (rs ! j), insert j u)
      else (s, u))"
  by (simp add: spineStep_def)

lemma fold_spineStep:
  assumes "distinct ks"
  shows "fold (spineStep rs i) ks (s, u) =
     (foldl (addRegion (rs ! i)) s
        (map ((!) rs) (filter (\<lambda>j. j \<notin> u \<and> regionsAligned (rs ! i) (rs ! j)) ks)),
      u \<union> set (filter (\<lambda>j. j \<notin> u \<and> regionsAligned (rs ! i) (rs ! j)) ks))"
  using assms
proof (induction ks arbitrary: s u)
  case Nil
  show ?case by simp
next
  case (Cons j ks)
  have d: "distinct ks" and nj: "j \<notin> set ks"
    using Cons.prems by simp_all
  have same: "filter (\<lambda>k. k \<noteq> j \<and> k \<notin> u \<and> regionsAligned (rs ! i) (rs ! k)) ks
            = filter (\<lambda>k. k \<notin> u \<and> regionsAligned (rs ! i) (rs ! k)) ks"
    using nj by (intro filter_cong) auto
  have same_set: "{k \<in> set ks. k \<noteq> j \<and> k \<notin> u \<and> regionsAligned (rs ! i) (rs ! k)}
            = {k \<in> set ks. k \<notin> u \<and> regionsAligned (rs ! i) (rs ! k)}"
    using nj by auto
  show ?case
    by (simp add: spineStep_apply Cons.IH [OF d] same same_set)
qed

lemma growSpine_eq:
  "growSpine rs i used =
     (foldl (addRegion (rs ! i)) (seedSpine (rs ! i)) (map ((!) rs) (mergedRegions rs i used)),
      insert i used \<union> set (mergedRegions rs i used))"
proof -
  have "filter (\<lambda>j. j \<notin> insert i used \<and> regionsAligned (rs ! i) (rs ! j)) [i + 1 ..< length rs]
      = mergedRegions rs i used"
    unfolding mergedRegions_def by (intro filter_cong) auto
  then show ?thesis
    by (simp add: growSpine_def fold_spineStep)
qed

lemma textRegions_foldl_addRegion:
  "bookSpine.textRegions (foldl (addRegion r1) s xs) = bookSpine.textRegions s @ xs"
  by (induction xs arbitrary: s) (simp_all add: addRegion_def)

lemma growSpine_textRegions:
  "bookSpine.textRegions (fst (growSpine rs i used)) = rs ! i # map ((!) rs) (mergedRegions rs i used)"
  by (simp add: growSpine_eq textRegions_foldl_addRegion seedSpine_def)

subsection \<open>Merge conditions\<close>




lemma wordDistance_eq_iff:
  assumes "0 \<le> t"
  shows "wordDistance w1 w2 = t \<longleftrightarrow>
     (wordCenterX w2 - wordCenterX w1)\<^sup>2 + (wordCenterY w2 - wordCenterY w1)\<^sup>2 = t\<^sup>2"
proof -
  have t: "sqrt (t\<^sup>2) = t"
    using assms by simp
  have "wordDistance w1 w2 = sqrt (t\<^sup>2) \<longleftrightarrow>
     (wordCenterX w2 - wordCenterX w1)\<^sup>2 + (wordCenterY w2 - wordCenterY w1)\<^sup>2 = t\<^sup>2"
    unfolding wordDistance_def by (rule real_sqrt_eq_iff)
  then show ?thesis
    by (simp only: t)
qed

lemma regionsAligned_condition:
  "regionsAligned r1 r2 \<longleftrightarrow> mergeCondition r1 r2"
  by (simp add: regionsAligned_def mergeCondition_def regionCenterX_def regionCenterY_def
      regionHeight_def Let_def mult.commute abs_minus_commute)

subsection \<open>The outer loops: partition of the input\<close>

lemma mergedWords_props:
  "distinct (mergedWords ws i used)"
  "set (mergedWords ws i used) \<inter> insert i used = {}"
  "set (mergedWords ws i used) \<subseteq> {..<length ws}"
  by (auto simp: mergedWords_def)

lemma mergedRegions_props:
  "distinct (mergedRegions rs i used)"
  "set (mergedRegions rs i used) \<inter> insert i used = {}"
  "set (mergedRegions rs i used) \<subseteq> {..<length rs}"
  by (auto simp: mergedRegions_def)

lemma mset_set_disjoint_list:
  assumes "finite A" "distinct ks" "set ks \<inter> A = {}"
  shows "mset_set (A \<union> set ks) = mset_set A + mset ks"
proof -
  have "mset_set (A \<union> set ks) = mset_set A + mset_set (set ks)"
    using assms by (intro mset_set_Union) auto
  then show ?thesis
    using assms(2) by (simp add: mset_set_set)
qed

lemma image_mset_nth_upto:
  "image_mset ((!) xs) (mset_set {..<length xs}) = mset xs"
proof -
  have "image_mset ((!) xs) (mset_set {..<length xs}) = mset (map ((!) xs) [0..<length xs])"
    by (simp add: mset_set_upto_eq_mset_upto)
  then show ?thesis by (simp add: map_nth)
qed

lemma regionsStep_partition:
  assumes i: "i < length ws" and fin: "finite used" and sub: "used \<subseteq> {..<length ws}"
    and inv: "mset (concat (map textRegion.words regions)) = image_mset ((!) ws) (mset_set used)"
    and step: "regionsStep ws i (regions, used) = (regions', used')"
  shows "finite used' \<and> used' \<subseteq> {..<length ws} \<and> insert i used \<subseteq> used'
       \<and> mset (concat (map textRegion.words regions')) = image_mset ((!) ws) (mset_set used')"
proof (cases "i \<in> used")
  case True
  then have "regions' = regions" "used' = used"
    using step by (simp_all add: regionsStep_def)
  then show ?thesis
    using True fin sub inv by auto
next
  case False
  let ?ms = "mergedWords ws i used"
  have u': "used' = insert i used \<union> set ?ms"
    and r': "regions' = regions @ [(foldl addWord (seedRegion (ws ! i)) (map ((!) ws) ?ms))
               \<lparr> textRegion.orientation := determineOrientation
                    (textRegion.words (foldl addWord (seedRegion (ws ! i)) (map ((!) ws) ?ms))) \<rparr>]"
    using step False by (auto simp: regionsStep_def growRegion_eq)
  have ms: "mset_set used' = add_mset i (mset_set used) + mset ?ms"
    unfolding u'
    using mset_set_disjoint_list [of "insert i used" ?ms] mergedWords_props [of ws i used] fin False
    by simp
  have w: "mset (concat (map textRegion.words regions'))
         = mset (concat (map textRegion.words regions)) + {# ws ! i #} + image_mset ((!) ws) (mset ?ms)"
    unfolding r' by (simp add: words_foldl_addWord seedRegion_def)
  show ?thesis
  proof (intro conjI)
    show "finite used'" unfolding u' using fin by simp
    show "used' \<subseteq> {..<length ws}"
      unfolding u' using sub i mergedWords_props(3) [of ws i used] by auto
    show "insert i used \<subseteq> used'" unfolding u' by auto
    show "mset (concat (map textRegion.words regions')) = image_mset ((!) ws) (mset_set used')"
      unfolding w ms inv by simp
  qed
qed

lemma fold_regionsStep_partition:
  assumes "set ks \<subseteq> {..<length ws}" "finite used" "used \<subseteq> {..<length ws}"
    and "mset (concat (map textRegion.words regions)) = image_mset ((!) ws) (mset_set used)"
    and "fold (regionsStep ws) ks (regions, used) = (regions', used')"
  shows "used' \<subseteq> {..<length ws} \<and> used \<union> set ks \<subseteq> used'
       \<and> mset (concat (map textRegion.words regions')) = image_mset ((!) ws) (mset_set used')"
  using assms
proof (induction ks arbitrary: regions used)
  case Nil
  then show ?case by auto
next
  case (Cons k ks)
  obtain regions1 used1 where s1: "regionsStep ws k (regions, used) = (regions1, used1)"
    by (cases "regionsStep ws k (regions, used)")
  have k: "k < length ws" using Cons.prems(1) by simp
  note one = regionsStep_partition [OF k Cons.prems(2) Cons.prems(3) Cons.prems(4) s1]
  have rest: "fold (regionsStep ws) ks (regions1, used1) = (regions', used')"
    using Cons.prems(5) s1 by simp
  have ks: "set ks \<subseteq> {..<length ws}" using Cons.prems(1) by simp
  have "used' \<subseteq> {..<length ws} \<and> used1 \<union> set ks \<subseteq> used'
       \<and> mset (concat (map textRegion.words regions')) = image_mset ((!) ws) (mset_set used')"
    using Cons.IH [OF ks _ _ _ rest] one by blast
  then show ?case using one by auto
qed

lemma groupWordsIntoRegions_partition:
  "mset (concat (map textRegion.words (groupWordsIntoRegions ws))) = mset ws"
proof (cases "length ws = 0")
  case True
  then show ?thesis by (simp add: groupWordsIntoRegions_def)
next
  case False
  obtain regions' used' where f: "fold (regionsStep ws) [0 ..< length ws] ([], {}) = (regions', used')"
    by (cases "fold (regionsStep ws) [0 ..< length ws] ([], {})")
  have "used' \<subseteq> {..<length ws} \<and> {} \<union> set [0 ..< length ws] \<subseteq> used'
       \<and> mset (concat (map textRegion.words regions')) = image_mset ((!) ws) (mset_set used')"
    by (rule fold_regionsStep_partition [OF _ _ _ _ f]) auto
  then have "used' = {..<length ws}"
    and "mset (concat (map textRegion.words regions')) = image_mset ((!) ws) (mset_set used')"
    by auto
  then show ?thesis
    using False f by (simp add: groupWordsIntoRegions_def image_mset_nth_upto)
qed

lemma candidatesStep_partition:
  assumes i: "i < length rs" and fin: "finite used" and sub: "used \<subseteq> {..<length rs}"
    and inv: "mset (concat (map bookSpine.textRegions spines)) = image_mset ((!) rs) (mset_set used)"
    and step: "candidatesStep rs i (spines, used) = (spines', used')"
  shows "finite used' \<and> used' \<subseteq> {..<length rs} \<and> insert i used \<subseteq> used'
       \<and> mset (concat (map bookSpine.textRegions spines')) = image_mset ((!) rs) (mset_set used')"
proof (cases "i \<in> used")
  case True
  then have "spines' = spines" "used' = used"
    using step by (simp_all add: candidatesStep_def)
  then show ?thesis
    using True fin sub inv by auto
next
  case False
  let ?ms = "mergedRegions rs i used"
  have u': "used' = insert i used \<union> set ?ms"
    and s': "spines' = spines @ [foldl (addRegion (rs ! i)) (seedSpine (rs ! i)) (map ((!) rs) ?ms)]"
    using step False by (auto simp: candidatesStep_def growSpine_eq)
  have ms: "mset_set used' = add_mset i (mset_set used) + mset ?ms"
    unfolding u'
    using mset_set_disjoint_list [of "insert i used" ?ms] mergedRegions_props [of rs i used] fin False
    by simp
  have w: "mset (concat (map bookSpine.textRegions spines'))
         = mset (concat (map bookSpine.textRegions spines)) + {# rs ! i #}
           + image_mset ((!) rs) (mset ?ms)"
    unfolding s' by (simp add: textRegions_foldl_addRegion seedSpine_def)
  show ?thesis
  proof (intro conjI)
    show "finite used'" unfolding u' using fin by simp
    show "used' \<subseteq> {..<length rs}"
      unfolding u' using sub i mergedRegions_props(3) [of rs i used] by auto
    show "insert i used \<subseteq> used'" unfolding u' by auto
    show "mset (concat (map bookSpine.textRegions spines')) = image_mset ((!) rs) (mset_set used')"
      unfolding w ms inv by simp
  qed
qed

lemma fold_candidatesStep_partition:
  assumes "set ks \<subseteq> {..<length rs}" "finite used" "used \<subseteq> {..<length rs}"
    and "mset (concat (map bookSpine.textRegions spines)) = image_mset ((!) rs) (mset_set used)"
    and "fold (candidatesStep rs) ks (spines, used) = (spines', used')"
  shows "used' \<subseteq> {..<length rs} \<and> used \<union> set ks \<subseteq> used'
       \<and> mset (concat (map bookSpine.textRegions spines')) = image_mset ((!) rs) (mset_set used')"
  using assms
proof (induction ks arbitrary: spines used)
  case Nil
  then show ?case by auto
next
  case (Cons k ks)
  obtain spines1 used1 where s1: "candidatesStep rs k (spines, used) = (spines1, used1)"
    by (cases "candidatesStep rs k (spines, used)")
  have k: "k < length rs" using Cons.prems(1) by simp
  note one = candidatesStep_partition [OF k Cons.prems(2) Cons.prems(3) Cons.prems(4) s1]
  have rest: "fold (candidatesStep rs) ks (spines1, used1) = (spines', used')"
    using Cons.prems(5) s1 by simp
  have ks: "set ks \<subseteq> {..<length rs}" using Cons.prems(1) by simp
  have "used' \<subseteq> {..<length rs} \<and> used1 \<union> set ks \<subseteq> used'
       \<and> mset (concat (map bookSpine.textRegions spines')) = image_mset ((!) rs) (mset_set used')"
    using Cons.IH [OF ks _ _ _ rest] one by blast
  then show ?case using one by auto
qed

lemma spineCandidates_partition:
  "mset (concat (map bookSpine.textRegions (spineCandidates rs))) = mset rs"
proof -
  obtain spines' used' where f: "fold (candidatesStep rs) [0 ..< length rs] ([], {}) = (spines', used')"
    by (cases "fold (candidatesStep rs) [0 ..< length rs] ([], {})")
  have "used' \<subseteq> {..<length rs} \<and> {} \<union> set [0 ..< length rs] \<subseteq> used'
       \<and> mset (concat (map bookSpine.textRegions spines')) = image_mset ((!) rs) (mset_set used')"
    by (rule fold_candidatesStep_partition [OF _ _ _ _ f]) auto
  then have "used' = {..<length rs}"
    and "mset (concat (map bookSpine.textRegions spines')) = image_mset ((!) rs) (mset_set used')"
    by auto
  then show ?thesis
    using f by (simp add: spineCandidates_def image_mset_nth_upto)
qed

text \<open>
  The spines \<open>detectBookSpines\<close> returns are the candidates of the scan, cleaned, filtered
  by the acceptance test and sorted.
\<close>

lemma fold_spinesStep_candidates:
  assumes "fold (candidatesStep rs) ks (cs, used) = (cs', used')"
  shows "fold (spinesStep rs) ks (filter accepted (map cleanSpine cs), used)
       = (filter accepted (map cleanSpine cs'), used')"
  using assms
proof (induction ks arbitrary: cs used)
  case Nil
  then show ?case by simp
next
  case (Cons k ks)
  obtain cs1 used1 where s1: "candidatesStep rs k (cs, used) = (cs1, used1)"
    by (cases "candidatesStep rs k (cs, used)")
  have "spinesStep rs k (filter accepted (map cleanSpine cs), used)
      = (filter accepted (map cleanSpine cs1), used1)"
    using s1 by (auto simp: spinesStep_def candidatesStep_def split: prod.splits if_splits)
  moreover have "fold (candidatesStep rs) ks (cs1, used1) = (cs', used')"
    using Cons.prems s1 by simp
  ultimately show ?case
    using Cons.IH by simp
qed

lemma spines_of_candidates:
  "detectBookSpines rs = sort_key spineCenterY (filter accepted (map cleanSpine (spineCandidates rs)))"
proof -
  obtain cs' used' where f: "fold (candidatesStep rs) [0 ..< length rs] ([], {}) = (cs', used')"
    by (cases "fold (candidatesStep rs) [0 ..< length rs] ([], {})")
  show ?thesis
    using fold_spinesStep_candidates [OF f] f
    by (simp add: detectBookSpines_def spineCandidates_def)
qed

lemma cleanSpine_fields:
  "bookSpine.textRegions (cleanSpine c) = bookSpine.textRegions c"
  "bookSpine.confidence (cleanSpine c) = bookSpine.confidence c"
  "bookSpine.bbox (cleanSpine c) = bookSpine.bbox c"
  "bookSpine.title (cleanSpine c) = cleanBookTitle (bookSpine.title c)"
  by (simp_all add: cleanSpine_def)

lemma detected_is_candidate:
  assumes "s \<in> set (detectBookSpines rs)"
  shows "\<exists>c \<in> set (spineCandidates rs). s = cleanSpine c \<and> accepted (cleanSpine c)"
  using assms by (auto simp: spines_of_candidates)

lemma detected_iff:
  assumes "c \<in> set (spineCandidates rs)"
  shows "cleanSpine c \<in> set (detectBookSpines rs) \<longleftrightarrow> accepted (cleanSpine c)"
  using assms by (auto simp: spines_of_candidates)

lemma mset_concat_map:
  "mset (concat (map f xs)) = (\<Sum>x \<in># mset xs. mset (f x))"
  by (induction xs) simp_all

lemma mset_concat_filter_subseteq:
  "mset (concat (map f (filter P xs))) \<subseteq># mset (concat (map f xs))"
proof (induction xs)
  case Nil
  show ?case by simp
next
  case (Cons x xs)
  have "mset (concat (map f xs)) \<subseteq># mset (f x) + mset (concat (map f xs))"
    by (rule mset_subset_eq_add_right)
  with Cons.IH
  have "mset (concat (map f (filter P xs))) \<subseteq># mset (f x) + mset (concat (map f xs))"
    by (rule subset_mset.order_trans)
  then show ?case
    using Cons.IH by simp
qed

lemma detected_regions:
  "mset (concat (map bookSpine.textRegions (detectBookSpines rs))) =
   mset (concat (map bookSpine.textRegions
          (filter (\<lambda>c. accepted (cleanSpine c)) (spineCandidates rs))))"
proof -
  have "map bookSpine.textRegions (filter accepted (map cleanSpine (spineCandidates rs)))
      = map bookSpine.textRegions (filter (\<lambda>c. accepted (cleanSpine c)) (spineCandidates rs))"
    by (simp add: filter_map comp_def cleanSpine_fields)
  then have "mset (concat (map bookSpine.textRegions
                (filter accepted (map cleanSpine (spineCandidates rs)))))
      = mset (concat (map bookSpine.textRegions
                (filter (\<lambda>c. accepted (cleanSpine c)) (spineCandidates rs))))"
    by simp
  moreover have "mset (concat (map bookSpine.textRegions (detectBookSpines rs)))
      = mset (concat (map bookSpine.textRegions
                (filter accepted (map cleanSpine (spineCandidates rs)))))"
    by (simp only: mset_concat_map spines_of_candidates mset_sort)
  ultimately show ?thesis
    by simp
qed

text \<open>
  Claim C3: every occurrence of an input word is in exactly one region of
  \<open>groupWordsIntoRegions\<close>: the words of the regions, taken together, are the input as a
  multiset. Every input region is in exactly one spine candidate of \<open>detectBookSpines\<close>
  in the same sense; the output is made of the accepted candidates, each with all its
  regions, so a region is in exactly one returned spine or in none.
\<close>

theorem partition_invariant:
  "mset (concat (map textRegion.words (groupWordsIntoRegions ws))) = mset ws
   \<and> mset (concat (map bookSpine.textRegions (spineCandidates rs))) = mset rs
   \<and> detectBookSpines rs =
       sort_key spineCenterY (filter accepted (map cleanSpine (spineCandidates rs)))
   \<and> bookSpine.textRegions (cleanSpine c) = bookSpine.textRegions c
   \<and> mset (concat (map bookSpine.textRegions (detectBookSpines rs))) =
       mset (concat (map bookSpine.textRegions
              (filter (\<lambda>c. accepted (cleanSpine c)) (spineCandidates rs))))
   \<and> mset (concat (map bookSpine.textRegions (detectBookSpines rs))) \<subseteq># mset rs"
proof (intro conjI)
  show "mset (concat (map textRegion.words (groupWordsIntoRegions ws))) = mset ws"
    by (rule groupWordsIntoRegions_partition)
  show "mset (concat (map bookSpine.textRegions (spineCandidates rs))) = mset rs"
    by (rule spineCandidates_partition)
  show "detectBookSpines rs =
       sort_key spineCenterY (filter accepted (map cleanSpine (spineCandidates rs)))"
    by (rule spines_of_candidates)
  show "bookSpine.textRegions (cleanSpine c) = bookSpine.textRegions c"
    by (rule cleanSpine_fields)
  show "mset (concat (map bookSpine.textRegions (detectBookSpines rs))) =
       mset (concat (map bookSpine.textRegions
              (filter (\<lambda>c. accepted (cleanSpine c)) (spineCandidates rs))))"
    by (rule detected_regions)
  have "mset (concat (map bookSpine.textRegions
              (filter (\<lambda>c. accepted (cleanSpine c)) (spineCandidates rs))))
        \<subseteq># mset (concat (map bookSpine.textRegions (spineCandidates rs)))"
    by (rule mset_concat_filter_subseteq)
  then show "mset (concat (map bookSpine.textRegions (detectBookSpines rs))) \<subseteq># mset rs"
    by (simp only: detected_regions spineCandidates_partition)
qed

subsection \<open>Acceptance filter\<close>

text \<open>
  Claim C5: \<open>detectBookSpines\<close> returns a candidate exactly when its cleaned title has
  at least 3 characters and its confidence is strictly greater than 30; a candidate
  whose cleaned title has length 2 is rejected whatever its confidence, and so is a
  candidate of confidence exactly 30.
\<close>

theorem acceptance_filter:
  "detectBookSpines rs =
     sort_key spineCenterY
       (filter (\<lambda>s. length (bookSpine.title s) \<ge> 3 \<and> bookSpine.confidence s > 30)
          (map cleanSpine (spineCandidates rs)))
   \<and> (\<forall>c \<in> set (spineCandidates rs).
         cleanSpine c \<in> set (detectBookSpines rs) \<longleftrightarrow>
           length (cleanBookTitle (bookSpine.title c)) \<ge> 3 \<and> bookSpine.confidence c > 30)
   \<and> (\<forall>c \<in> set (spineCandidates rs).
         length (cleanBookTitle (bookSpine.title c)) = 2 \<longrightarrow>
           cleanSpine c \<notin> set (detectBookSpines rs))
   \<and> (\<forall>c \<in> set (spineCandidates rs).
         bookSpine.confidence c = 30 \<longrightarrow> cleanSpine c \<notin> set (detectBookSpines rs))
   \<and> (\<forall>s \<in> set (detectBookSpines rs).
         \<exists>c \<in> set (spineCandidates rs). s = cleanSpine c)"
proof (intro conjI ballI impI)
  have "accepted = (\<lambda>s. length (bookSpine.title s) \<ge> 3 \<and> bookSpine.confidence s > 30)"
    by (rule ext) (simp add: accepted_def)
  then show "detectBookSpines rs =
     sort_key spineCenterY
       (filter (\<lambda>s. length (bookSpine.title s) \<ge> 3 \<and> bookSpine.confidence s > 30)
          (map cleanSpine (spineCandidates rs)))"
    using spines_of_candidates [of rs] by simp
next
  fix c
  assume "c \<in> set (spineCandidates rs)"
  then show "cleanSpine c \<in> set (detectBookSpines rs) \<longleftrightarrow>
           length (cleanBookTitle (bookSpine.title c)) \<ge> 3 \<and> bookSpine.confidence c > 30"
    by (simp add: detected_iff accepted_def cleanSpine_fields)
next
  fix c
  assume "c \<in> set (spineCandidates rs)" and "length (cleanBookTitle (bookSpine.title c)) = 2"
  then show "cleanSpine c \<notin> set (detectBookSpines rs)"
    by (simp add: detected_iff accepted_def cleanSpine_fields)
next
  fix c
  assume "c \<in> set (spineCandidates rs)" and "bookSpine.confidence c = 30"
  then show "cleanSpine c \<notin> set (detectBookSpines rs)"
    by (simp add: detected_iff accepted_def cleanSpine_fields)
next
  fix s
  assume "s \<in> set (detectBookSpines rs)"
  then show "\<exists>c \<in> set (spineCandidates rs). s = cleanSpine c"
    using detected_is_candidate by blast
qed

lemma clean_simple_titles:
  "cleanBookTitle (js ''ab'') = js ''ab''"
  "cleanBookTitle (js ''Alpha'') = js ''Alpha''"
  "cleanBookTitle (js ''Gamma'') = js ''Gamma''"
  "cleanBookTitle (js ''Beta Alpha Gamma'') = js ''Beta Alpha Gamma''"
  by (simp_all add: cleanBookTitle_def js_def removeSpecial_def removeLeadingNumber_def trim_def
      isKept_def isSpace_def isDigit_def isWordChar_def)

lemma filter_candidates:
  "spineCandidates [shortRegion, lowRegion, goodRegion] =
     [seedSpine shortRegion, seedSpine lowRegion, seedSpine goodRegion]"
proof -
  have "\<not> regionsAligned shortRegion lowRegion" "\<not> regionsAligned shortRegion goodRegion"
    "\<not> regionsAligned lowRegion goodRegion"
    by (simp_all add: regionsAligned_condition mergeCondition_def regionCenterX_def
        regionCenterY_def regionHeight_def shortRegion_def lowRegion_def goodRegion_def
        mkRegion_def)
  then show ?thesis
    by (simp add: spineCandidates_def candidatesStep_def growSpine_def spineStep_apply upt_rec)
qed

text \<open>
  Of three separate regions, the one titled \<open>ab\<close> with confidence 90 and the one titled
  \<open>Alpha\<close> with confidence 30 are rejected, the one titled \<open>Gamma\<close> with confidence 90 is
  returned.
\<close>

theorem acceptance_filter_witness:
  "set (spineCandidates [shortRegion, lowRegion, goodRegion]) =
     {seedSpine shortRegion, seedSpine lowRegion, seedSpine goodRegion}
   \<and> length (cleanBookTitle (bookSpine.title (seedSpine shortRegion))) = 2
   \<and> bookSpine.confidence (seedSpine shortRegion) = 90
   \<and> cleanSpine (seedSpine shortRegion) \<notin> set (detectBookSpines [shortRegion, lowRegion, goodRegion])
   \<and> length (cleanBookTitle (bookSpine.title (seedSpine lowRegion))) = 5
   \<and> bookSpine.confidence (seedSpine lowRegion) = 30
   \<and> cleanSpine (seedSpine lowRegion) \<notin> set (detectBookSpines [shortRegion, lowRegion, goodRegion])
   \<and> length (cleanBookTitle (bookSpine.title (seedSpine goodRegion))) = 5
   \<and> bookSpine.confidence (seedSpine goodRegion) = 90
   \<and> cleanSpine (seedSpine goodRegion) \<in> set (detectBookSpines [shortRegion, lowRegion, goodRegion])"
proof -
  have t: "bookSpine.title (seedSpine shortRegion) = js ''ab''"
    "bookSpine.title (seedSpine lowRegion) = js ''Alpha''"
    "bookSpine.title (seedSpine goodRegion) = js ''Gamma''"
    "bookSpine.confidence (seedSpine shortRegion) = 90"
    "bookSpine.confidence (seedSpine lowRegion) = 30"
    "bookSpine.confidence (seedSpine goodRegion) = 90"
    by (simp_all add: seedSpine_def shortRegion_def lowRegion_def goodRegion_def mkRegion_def)
  have l: "length (js ''ab'') = 2" "length (js ''Alpha'') = 5" "length (js ''Gamma'') = 5"
    by (simp_all add: js_def)
  let ?rs = "[shortRegion, lowRegion, goodRegion]"
  note iff = acceptance_filter [of ?rs, THEN conjunct2, THEN conjunct1, rule_format]
  have m: "seedSpine shortRegion \<in> set (spineCandidates ?rs)"
    "seedSpine lowRegion \<in> set (spineCandidates ?rs)"
    "seedSpine goodRegion \<in> set (spineCandidates ?rs)"
    by (simp_all add: filter_candidates)
  have "cleanSpine (seedSpine shortRegion) \<notin> set (detectBookSpines ?rs)"
    using iff [OF m(1)] by (simp add: t l clean_simple_titles)
  moreover have "cleanSpine (seedSpine lowRegion) \<notin> set (detectBookSpines ?rs)"
    using iff [OF m(2)] by (simp add: t l clean_simple_titles)
  moreover have "cleanSpine (seedSpine goodRegion) \<in> set (detectBookSpines ?rs)"
    using iff [OF m(3)] by (simp add: t l clean_simple_titles)
  ultimately show ?thesis
    by (simp add: filter_candidates t l clean_simple_titles)
qed

subsection \<open>Confidence bounds\<close>

lemma fold_invariant:
  assumes "P s" and "\<And>x s. x \<in> set xs \<Longrightarrow> P s \<Longrightarrow> P (f x s)"
  shows "P (fold f xs s)"
  using assms by (induction xs arbitrary: s) auto


lemma candidates_seeded:
  assumes "c \<in> set (spineCandidates rs)"
  shows "\<exists>i used. i < length rs \<and> c = fst (growSpine rs i used)"
proof -
  define Q where "Q = (\<lambda>c. \<exists>i used. i < length rs \<and> c = fst (growSpine rs i used))"
  define P where "P = (\<lambda>s :: bookSpine list \<times> nat set. \<forall>c \<in> set (fst s). Q c)"
  have "P (fold (candidatesStep rs) [0 ..< length rs] ([], {}))"
  proof (rule fold_invariant)
    show "P ([], {})" by (simp add: P_def)
  next
    fix x and s :: "bookSpine list \<times> nat set"
    assume x: "x \<in> set [0 ..< length rs]" and s: "P s"
    obtain spines used where rs: "s = (spines, used)" by (cases s)
    show "P (candidatesStep rs x s)"
    proof (cases "x \<in> used")
      case True
      then show ?thesis using s by (simp add: rs candidatesStep_def)
    next
      case False
      have q: "Q (fst (growSpine rs x used))"
        unfolding Q_def using x by auto
      have "fst (candidatesStep rs x s) = spines @ [fst (growSpine rs x used)]"
        using False by (simp add: rs candidatesStep_def split: prod.splits)
      then show ?thesis
        using q s by (simp add: P_def rs)
    qed
  qed
  then have "Q c"
    using assms by (auto simp: P_def spineCandidates_def)
  then show ?thesis
    by (simp add: Q_def)
qed














subsection \<open>Order of the texts in a title\<close>

lemma joinSpace_Cons:
  "joinSpace (t # ts) = t @ concat (map (\<lambda>b. 32 # b) ts)"
  by (induction ts arbitrary: t) simp_all

lemma joinSpace_append:
  "joinSpace (as @ t # bs) =
     concat (map (\<lambda>a. a @ [32]) as) @ t @ concat (map (\<lambda>b. 32 # b) bs)"
proof (induction as)
  case Nil
  show ?case by (simp add: joinSpace_Cons)
next
  case (Cons a as)
  have "joinSpace ((a # as) @ t # bs) = a @ 32 # joinSpace (as @ t # bs)"
    by (cases as) simp_all
  then show ?case
    by (simp add: Cons.IH)
qed

lemma title_foldl_addRegion:
  "bookSpine.title (foldl (addRegion r1) s xs) =
     concat (map (\<lambda>r. textRegion.text r @ [32])
        (rev (filter (\<lambda>r. y0 (textRegion.bbox r) < y0 (textRegion.bbox r1)) xs)))
     @ bookSpine.title s
     @ concat (map (\<lambda>r. 32 # textRegion.text r)
        (filter (\<lambda>r. \<not> y0 (textRegion.bbox r) < y0 (textRegion.bbox r1)) xs))"
proof (induction xs arbitrary: s)
  case Nil
  show ?case by simp
next
  case (Cons x xs)
  show ?case
    by (simp add: Cons.IH [of "addRegion r1 s x"]) (simp add: addRegion_def)
qed

lemma growSpine_title_layout:
  "bookSpine.title (fst (growSpine rs i used)) = spineTitleLayout (fst (growSpine rs i used))"
proof -
  have "spineTitleLayout (fst (growSpine rs i used)) =
     joinSpace
       (rev (map textRegion.text
          (filter (\<lambda>r. y0 (textRegion.bbox r) < y0 (textRegion.bbox (rs ! i)))
             (map ((!) rs) (mergedRegions rs i used))))
        @ textRegion.text (rs ! i)
        # map textRegion.text
          (filter (\<lambda>r. \<not> y0 (textRegion.bbox r) < y0 (textRegion.bbox (rs ! i)))
             (map ((!) rs) (mergedRegions rs i used))))"
    by (simp add: spineTitleLayout_def growSpine_textRegions)
  also have "\<dots> = bookSpine.title (fst (growSpine rs i used))"
    by (simp only: joinSpace_append growSpine_eq fst_conv title_foldl_addRegion)
      (simp add: seedSpine_def rev_map map_concat comp_def)
  finally show ?thesis by simp
qed

lemma order_candidates:
  "spineCandidates [gammaRegion, alphaRegion, betaRegion] =
     [\<lparr> bookSpine.title = js ''Beta Alpha Gamma'', bookSpine.confidence = 77.5,
        bookSpine.bbox = \<lparr>x0 = 0, y0 = 50, x1 = 20, y1 = 140\<rparr>,
        bookSpine.orientation = horizontal,
        bookSpine.textRegions = [gammaRegion, alphaRegion, betaRegion] \<rparr>]"
proof -
  have a: "regionsAligned gammaRegion alphaRegion" "regionsAligned gammaRegion betaRegion"
    by (simp_all add: regionsAligned_condition mergeCondition_def regionCenterX_def
        regionCenterY_def regionHeight_def gammaRegion_def alphaRegion_def betaRegion_def
        mkRegion_def)
  have "spineCandidates [gammaRegion, alphaRegion, betaRegion] =
     [addRegion gammaRegion (addRegion gammaRegion (seedSpine gammaRegion) alphaRegion) betaRegion]"
    using a
    by (simp add: spineCandidates_def candidatesStep_def growSpine_def spineStep_apply upt_rec)
  also have "\<dots> = [\<lparr> bookSpine.title = js ''Beta Alpha Gamma'', bookSpine.confidence = 77.5,
        bookSpine.bbox = \<lparr>x0 = 0, y0 = 50, x1 = 20, y1 = 140\<rparr>,
        bookSpine.orientation = horizontal,
        bookSpine.textRegions = [gammaRegion, alphaRegion, betaRegion] \<rparr>]"
    by (simp add: addRegion_def seedSpine_def expandBox_def)
      (simp add: gammaRegion_def alphaRegion_def betaRegion_def mkRegion_def js_def)
  finally show ?thesis .
qed

text \<open>
  Claim C1, as stated, fails: with the seed's top at 100, a region with its top at 50
  merged first and a region with its top at 80 merged second, both texts are put before
  the title at the time, so the accepted spine's title reads Beta, Alpha, Gamma while
  the tops are in the order Alpha, Beta, Gamma.
\<close>

theorem title_order_counterexample:
  "map bookSpine.textRegions (spineCandidates [gammaRegion, alphaRegion, betaRegion])
     = [[gammaRegion, alphaRegion, betaRegion]]
   \<and> map bookSpine.title (spineCandidates [gammaRegion, alphaRegion, betaRegion])
     = [js ''Beta Alpha Gamma'']
   \<and> map titleTopToBottom (spineCandidates [gammaRegion, alphaRegion, betaRegion])
     = [js ''Alpha Beta Gamma'']
   \<and> map bookSpine.title (detectBookSpines [gammaRegion, alphaRegion, betaRegion])
     = [js ''Beta Alpha Gamma'']
   \<and> y0 (textRegion.bbox alphaRegion) < y0 (textRegion.bbox betaRegion)
   \<and> y0 (textRegion.bbox betaRegion) < y0 (textRegion.bbox gammaRegion)"
proof -
  have t: "map titleTopToBottom (spineCandidates [gammaRegion, alphaRegion, betaRegion])
     = [js ''Alpha Beta Gamma'']"
    by (simp add: order_candidates titleTopToBottom_def)
      (simp add: gammaRegion_def alphaRegion_def betaRegion_def mkRegion_def js_def)
  have d: "map bookSpine.title (detectBookSpines [gammaRegion, alphaRegion, betaRegion])
     = [js ''Beta Alpha Gamma'']"
    by (simp add: spines_of_candidates order_candidates cleanSpine_def accepted_def
        clean_simple_titles)
      (simp add: js_def)
  have y: "y0 (textRegion.bbox alphaRegion) < y0 (textRegion.bbox betaRegion)"
    "y0 (textRegion.bbox betaRegion) < y0 (textRegion.bbox gammaRegion)"
    by (simp_all add: gammaRegion_def alphaRegion_def betaRegion_def mkRegion_def)
  show ?thesis
    using t d y by (simp add: order_candidates)
qed

text \<open>
  Claim C1, amended: a merged region's text is inserted before the title when its top
  precedes the seed's top and appended otherwise; so the pre-cleanup title of every
  candidate, and of the candidate behind every returned spine, is made of the texts of
  the regions above the seed, latest merge first, then the seed's text, then the texts
  of the other merged regions in merge order.
\<close>

theorem title_insertion_order:
  "bookSpine.title (addRegion r1 s r2) =
     (if y0 (textRegion.bbox r2) < y0 (textRegion.bbox r1)
      then textRegion.text r2 @ 32 # bookSpine.title s
      else bookSpine.title s @ 32 # textRegion.text r2)
   \<and> (\<forall>c \<in> set (spineCandidates rs). bookSpine.title c = spineTitleLayout c)
   \<and> (\<forall>s \<in> set (detectBookSpines rs).
         \<exists>c \<in> set (spineCandidates rs).
            s = cleanSpine c \<and> bookSpine.title c = spineTitleLayout c)"
proof (intro conjI ballI)
  show "bookSpine.title (addRegion r1 s r2) =
     (if y0 (textRegion.bbox r2) < y0 (textRegion.bbox r1)
      then textRegion.text r2 @ 32 # bookSpine.title s
      else bookSpine.title s @ 32 # textRegion.text r2)"
    by (simp add: addRegion_def)
next
  fix c
  assume "c \<in> set (spineCandidates rs)"
  then obtain i used where "c = fst (growSpine rs i used)"
    using candidates_seeded by blast
  then show "bookSpine.title c = spineTitleLayout c"
    by (simp only: growSpine_title_layout)
next
  fix s
  assume "s \<in> set (detectBookSpines rs)"
  then obtain c where c: "c \<in> set (spineCandidates rs)" and s: "s = cleanSpine c"
    using detected_is_candidate by blast
  obtain i used where "c = fst (growSpine rs i used)"
    using c candidates_seeded by blast
  then have "bookSpine.title c = spineTitleLayout c"
    by (simp only: growSpine_title_layout)
  then show "\<exists>c \<in> set (spineCandidates rs). s = cleanSpine c \<and> bookSpine.title c = spineTitleLayout c"
    using c s by blast
qed

theorem title_insertion_order_witness:
  "set (spineCandidates [gammaRegion, alphaRegion, betaRegion]) =
     {addRegion gammaRegion (addRegion gammaRegion (seedSpine gammaRegion) alphaRegion) betaRegion}
   \<and> spineTitleLayout
        (addRegion gammaRegion (addRegion gammaRegion (seedSpine gammaRegion) alphaRegion) betaRegion)
      = js ''Beta Alpha Gamma''
   \<and> bookSpine.title
        (addRegion gammaRegion (addRegion gammaRegion (seedSpine gammaRegion) alphaRegion) betaRegion)
      = js ''Beta Alpha Gamma''"
proof -
  let ?c = "addRegion gammaRegion (addRegion gammaRegion (seedSpine gammaRegion) alphaRegion) betaRegion"
  have a: "regionsAligned gammaRegion alphaRegion" "regionsAligned gammaRegion betaRegion"
    by (simp_all add: regionsAligned_condition mergeCondition_def regionCenterX_def
        regionCenterY_def regionHeight_def gammaRegion_def alphaRegion_def betaRegion_def
        mkRegion_def)
  have cs: "spineCandidates [gammaRegion, alphaRegion, betaRegion] = [?c]"
    using a
    by (simp add: spineCandidates_def candidatesStep_def growSpine_def spineStep_apply upt_rec)
  have l: "spineTitleLayout ?c = js ''Beta Alpha Gamma''"
    by (simp add: spineTitleLayout_def addRegion_def seedSpine_def)
      (simp add: gammaRegion_def alphaRegion_def betaRegion_def mkRegion_def js_def)
  have "bookSpine.title ?c = spineTitleLayout ?c"
    using title_insertion_order [of _ _ _ "[gammaRegion, alphaRegion, betaRegion]",
        THEN conjunct2, THEN conjunct1, rule_format, of ?c]
    by (simp add: cs)
  then show ?thesis
    using l by (simp add: cs)
qed

subsection \<open>Title cleanup\<close>

lemma isSpace_32: "isSpace 32"
  by (simp add: isSpace_def)

lemma isKept_32: "isKept 32"
  by (simp add: isKept_def isSpace_32)

lemma set_normalizeWhitespace:
  "c \<in> set (normalizeWhitespace s) \<Longrightarrow> c = 32 \<or> (c \<in> set s \<and> \<not> isSpace c)"
proof (induction s rule: normalizeWhitespace.induct)
  case 1
  then show ?case by simp
next
  case (2 d ds)
  show ?case
  proof (cases "isSpace d")
    case True
    then have "c = 32 \<or> c \<in> set (normalizeWhitespace (dropWhile isSpace ds))"
      using "2.prems" by simp
    then show ?thesis
      using "2.IH"(1) [OF True] set_dropWhileD [of c isSpace ds] by auto
  next
    case False
    then have "c = d \<or> c \<in> set (normalizeWhitespace ds)"
      using "2.prems" by simp
    then show ?thesis
      using "2.IH"(2) [OF False] False by auto
  qed
qed

lemma set_removeLeadingNumber: "set (removeLeadingNumber s) \<subseteq> set s"
  by (auto simp: removeLeadingNumber_def dest: set_dropWhileD)

lemma set_trim: "set (trim s) \<subseteq> set s"
proof
  fix c
  assume "c \<in> set (trim s)"
  then have "c \<in> set (dropWhile isSpace (rev (dropWhile isSpace s)))"
    by (simp add: trim_def)
  then have "c \<in> set (rev (dropWhile isSpace s))"
    by (rule set_dropWhileD)
  then have "c \<in> set (dropWhile isSpace s)"
    by simp
  then show "c \<in> set s"
    by (rule set_dropWhileD)
qed

lemma splitSpace_tokens:
  "w \<in> set (splitSpace s) \<Longrightarrow> set w \<subseteq> set s \<and> 32 \<notin> set w"
proof (induction s arbitrary: w)
  case Nil
  then show ?case by simp
next
  case (Cons c cs)
  show ?case
  proof (cases "c = 32")
    case True
    then show ?thesis using Cons by auto
  next
    case False
    show ?thesis
    proof (cases "splitSpace cs")
      case Nil
      then show ?thesis using Cons.prems False by simp
    next
      case (Cons t ts)
      then have "w = c # t \<or> w \<in> set ts"
        using Cons.prems False by simp
      moreover have "set t \<subseteq> set cs \<and> 32 \<notin> set t"
        using Cons.IH [of t] Cons by simp
      moreover have "w \<in> set ts \<Longrightarrow> set w \<subseteq> set cs \<and> 32 \<notin> set w"
        using Cons.IH [of w] Cons by simp
      ultimately show ?thesis
        using False by auto
    qed
  qed
qed

lemma set_joinSpace: "set (joinSpace ts) \<subseteq> \<Union> (set ` set ts) \<union> {32}"
  by (induction ts rule: joinSpace.induct) auto

lemma trimmed_chars:
  assumes "c \<in> set (trim (removeLeadingNumber (removeSpecial (normalizeWhitespace s))))"
  shows "isKept c \<and> (c = 32 \<or> (c \<in> set s \<and> \<not> isSpace c))"
proof -
  have "c \<in> set (removeSpecial (normalizeWhitespace s))"
    using assms set_trim set_removeLeadingNumber by blast
  then show ?thesis
    using set_normalizeWhitespace [of c s] by (auto simp: removeSpecial_def)
qed

lemma clean_tokens:
  assumes "w \<in> set (filter (\<lambda>word. length word > 1)
             (splitSpace (trim (removeLeadingNumber (removeSpecial (normalizeWhitespace s))))))"
  shows "length w > 1 \<and> (\<forall>c \<in> set w. isKept c \<and> \<not> isSpace c \<and> c \<in> set s)"
proof -
  let ?u = "trim (removeLeadingNumber (removeSpecial (normalizeWhitespace s)))"
  have w: "w \<in> set (splitSpace ?u)" and l: "length w > 1"
    using assms by simp_all
  have "\<forall>c \<in> set w. isKept c \<and> \<not> isSpace c \<and> c \<in> set s"
  proof
    fix c
    assume c: "c \<in> set w"
    then have "c \<in> set ?u" and "c \<noteq> 32"
      using splitSpace_tokens [OF w] by auto
    then show "isKept c \<and> \<not> isSpace c \<and> c \<in> set s"
      using trimmed_chars [of c s] by auto
  qed
  then show ?thesis using l by simp
qed

lemma chars_of_cleanBookTitle:
  assumes "c \<in> set (cleanBookTitle s)"
  shows "c = 32 \<or> (isKept c \<and> \<not> isSpace c \<and> c \<in> set s)"
proof -
  let ?ts = "filter (\<lambda>word. length word > 1)
             (splitSpace (trim (removeLeadingNumber (removeSpecial (normalizeWhitespace s)))))"
  have "c \<in> \<Union> (set ` set ?ts) \<union> {32}"
    using assms set_joinSpace [of ?ts] by (auto simp: cleanBookTitle_def)
  then show ?thesis
    using clean_tokens [of _ s] by auto
qed

lemma kept_nonspace_titleChar:
  "isKept c \<and> \<not> isSpace c \<Longrightarrow> titleChar c"
  by (auto simp: isKept_def isWordChar_def isDigit_def titleChar_def listedTitleChar_def)

lemma clean_examples:
  "cleanBookTitle (js ''a_b'') = js ''a_b''"
  "cleanBookTitle (js ''1 2ab'') = js ''2ab''"
  "cleanBookTitle (js ''2ab'') = js ''ab''"
  "cleanBookTitle (js ''3   The Lord-of the Rings!!'') = js ''The Lord-of the Rings''"
  "cleanBookTitle (js ''The Lord-of the Rings'') = js ''The Lord-of the Rings''"
  "cleanBookTitle (js ''C# & F_sharp: a*b'') = js ''F_sharp: ab''"
  by (simp_all add: cleanBookTitle_def js_def removeSpecial_def removeLeadingNumber_def trim_def
      isKept_def isSpace_def isDigit_def isWordChar_def)

text \<open>
  Claim C7, as stated, fails: \<^verbatim>\<open>\w\<close> matches the underscore, which the second
  replacement therefore keeps, and the underscore is not in the claim's set.
\<close>

theorem underscore_counterexample:
  "cleanBookTitle (js ''a_b'') = [97, 95, 98] \<and> \<not> listedTitleChar 95"
  by (simp add: clean_examples listedTitleChar_def) (simp add: js_def)

text \<open>
  Claim C7, amended: every character of the string \<open>cleanBookTitle\<close> returns is an
  ASCII letter, a digit, the underscore, a space, or one of hyphen, colon, ampersand,
  apostrophe, period and comma; it is a character of the input or a space.
\<close>

theorem cleanBookTitle_charset:
  "\<forall>c \<in> set (cleanBookTitle s).
     ((65 \<le> c \<and> c \<le> 90) \<or> (97 \<le> c \<and> c \<le> 122) \<or> (48 \<le> c \<and> c \<le> 57) \<or> c = 95
      \<or> c = 32 \<or> c = 45 \<or> c = 58 \<or> c = 38 \<or> c = 39 \<or> c = 46 \<or> c = 44)
     \<and> (c \<in> set s \<or> c = 32)"
proof
  fix c
  assume "c \<in> set (cleanBookTitle s)"
  then have "c = 32 \<or> (isKept c \<and> \<not> isSpace c \<and> c \<in> set s)"
    by (rule chars_of_cleanBookTitle)
  then have "titleChar c \<and> (c \<in> set s \<or> c = 32)"
    using kept_nonspace_titleChar [of c] by (auto simp: titleChar_def listedTitleChar_def)
  then show "((65 \<le> c \<and> c \<le> 90) \<or> (97 \<le> c \<and> c \<le> 122) \<or> (48 \<le> c \<and> c \<le> 57) \<or> c = 95
      \<or> c = 32 \<or> c = 45 \<or> c = 58 \<or> c = 38 \<or> c = 39 \<or> c = 46 \<or> c = 44)
     \<and> (c \<in> set s \<or> c = 32)"
    by (auto simp: titleChar_def listedTitleChar_def)
qed

theorem cleanBookTitle_charset_witness:
  "cleanBookTitle (js ''C# & F_sharp: a*b'') = js ''F_sharp: ab''
   \<and> 95 \<in> set (cleanBookTitle (js ''C# & F_sharp: a*b''))
   \<and> 35 \<in> set (js ''C# & F_sharp: a*b'') \<and> 35 \<notin> set (cleanBookTitle (js ''C# & F_sharp: a*b''))
   \<and> 42 \<in> set (js ''C# & F_sharp: a*b'') \<and> 42 \<notin> set (cleanBookTitle (js ''C# & F_sharp: a*b''))"
proof -
  have "35 \<notin> set (cleanBookTitle (js ''C# & F_sharp: a*b''))"
    using cleanBookTitle_charset [of "js ''C# & F_sharp: a*b''", rule_format, of 35] by auto
  moreover have "42 \<notin> set (cleanBookTitle (js ''C# & F_sharp: a*b''))"
    using cleanBookTitle_charset [of "js ''C# & F_sharp: a*b''", rule_format, of 42] by auto
  moreover have "95 \<in> set (cleanBookTitle (js ''C# & F_sharp: a*b''))"
    by (simp add: clean_examples) (simp add: js_def)
  moreover have "35 \<in> set (js ''C# & F_sharp: a*b'')" "42 \<in> set (js ''C# & F_sharp: a*b'')"
    by (simp_all add: js_def)
  ultimately show ?thesis
    by (simp add: clean_examples)
qed

lemma normalizeWhitespace_prefix:
  "\<forall>c \<in> set w. \<not> isSpace c \<Longrightarrow> normalizeWhitespace (w @ r) = w @ normalizeWhitespace r"
  by (induction w) simp_all

lemma normalizeWhitespace_joinSpace:
  assumes "\<forall>w \<in> set ts. w \<noteq> [] \<and> (\<forall>c \<in> set w. \<not> isSpace c)"
  shows "normalizeWhitespace (joinSpace ts) = joinSpace ts"
  using assms
proof (induction ts rule: joinSpace.induct)
  case 1
  show ?case by simp
next
  case (2 t)
  then show ?case
    using normalizeWhitespace_prefix [of t "[]"] by simp
next
  case (3 t t' ts)
  obtain a as where t': "t' = a # as" and a: "\<not> isSpace a"
    using "3.prems" by (cases t') auto
  have d: "dropWhile isSpace (joinSpace (t' # ts)) = joinSpace (t' # ts)"
    by (simp add: joinSpace_Cons t' a)
  have "normalizeWhitespace (joinSpace (t # t' # ts))
      = t @ normalizeWhitespace (32 # joinSpace (t' # ts))"
    using "3.prems" normalizeWhitespace_prefix [of t "32 # joinSpace (t' # ts)"] by simp
  also have "\<dots> = t @ 32 # normalizeWhitespace (joinSpace (t' # ts))"
    by (simp add: isSpace_32 d del: joinSpace.simps)
  also have "\<dots> = t @ 32 # joinSpace (t' # ts)"
    using "3.IH" "3.prems" by simp
  finally show ?case by simp
qed

lemma removeSpecial_joinSpace:
  assumes "\<forall>w \<in> set ts. \<forall>c \<in> set w. isKept c"
  shows "removeSpecial (joinSpace ts) = joinSpace ts"
proof -
  have "\<forall>c \<in> set (joinSpace ts). isKept c"
    using assms set_joinSpace [of ts] isKept_32 by auto
  then show ?thesis
    by (simp add: removeSpecial_def)
qed

lemma removeLeadingNumber_id:
  "\<not> startsWithDigit s \<Longrightarrow> removeLeadingNumber s = s"
  by (cases s) (simp_all add: removeLeadingNumber_def startsWithDigit_def)

lemma trim_id:
  assumes "s = [] \<or> (\<not> isSpace (hd s) \<and> \<not> isSpace (last s))"
  shows "trim s = s"
proof (cases s)
  case Nil
  then show ?thesis by (simp add: trim_def)
next
  case (Cons c cs)
  then have h: "\<not> isSpace (hd s)" and l: "\<not> isSpace (last s)" and ne: "s \<noteq> []"
    using assms by auto
  have 1: "dropWhile isSpace s = s"
    using h Cons by simp
  have "s = butlast s @ [last s]"
    using ne by simp
  then have r: "rev s = last s # rev (butlast s)"
    by (metis rev.simps(2) rev_rev_ident rev_swap)
  have "dropWhile isSpace (last s # rev (butlast s)) = last s # rev (butlast s)"
    using l by simp
  then have 2: "dropWhile isSpace (rev s) = rev s"
    by (simp only: r)
  show ?thesis
    by (simp add: trim_def 1 2)
qed

lemma joinSpace_ends:
  assumes "ts \<noteq> []" "\<forall>w \<in> set ts. w \<noteq> []"
  shows "joinSpace ts \<noteq> [] \<and> hd (joinSpace ts) = hd (hd ts) \<and> last (joinSpace ts) = last (last ts)"
  using assms
proof (induction ts rule: joinSpace.induct)
  case 1
  then show ?case by simp
next
  case (2 t)
  then show ?case by simp
next
  case (3 t t' ts)
  have "joinSpace (t' # ts) \<noteq> [] \<and> last (joinSpace (t' # ts)) = last (last (t' # ts))"
    using "3.IH" "3.prems" by simp
  then show ?case
    using "3.prems" by simp
qed

lemma trim_joinSpace:
  assumes "\<forall>w \<in> set ts. w \<noteq> [] \<and> (\<forall>c \<in> set w. \<not> isSpace c)"
  shows "trim (joinSpace ts) = joinSpace ts"
proof (cases "ts = []")
  case True
  then show ?thesis by (simp add: trim_def)
next
  case False
  have ne: "\<forall>w \<in> set ts. w \<noteq> []" using assms by simp
  have "hd ts \<in> set ts" "last ts \<in> set ts"
    using False by simp_all
  then have "\<not> isSpace (hd (hd ts))" "\<not> isSpace (last (last ts))"
    using assms by (metis hd_in_set, metis last_in_set)
  then show ?thesis
    using joinSpace_ends [OF False ne] by (intro trim_id) simp
qed

lemma splitSpace_token:
  "32 \<notin> set w \<Longrightarrow> splitSpace w = [w]"
  by (induction w) simp_all

lemma splitSpace_prefix:
  "32 \<notin> set w \<Longrightarrow> splitSpace (w @ 32 # r) = w # splitSpace r"
  by (induction w) simp_all

lemma splitSpace_joinSpace:
  assumes "ts \<noteq> []" "\<forall>w \<in> set ts. 32 \<notin> set w"
  shows "splitSpace (joinSpace ts) = ts"
  using assms
proof (induction ts rule: joinSpace.induct)
  case 1
  then show ?case by simp
next
  case (2 t)
  then show ?case by (simp add: splitSpace_token)
next
  case (3 t t' ts)
  have "splitSpace (joinSpace (t # t' # ts)) = t # splitSpace (joinSpace (t' # ts))"
    using "3.prems" splitSpace_prefix [of t "joinSpace (t' # ts)"] by simp
  then show ?case
    using "3.IH" "3.prems" by simp
qed

lemma cleanBookTitle_empty: "cleanBookTitle [] = []"
  by (simp add: cleanBookTitle_def removeSpecial_def removeLeadingNumber_def trim_def)

text \<open>
  A string in the form the cleanup produces (tokens of at least two kept characters,
  joined by single spaces) passes the first two replacements, the trimming and the
  split-filter-join unchanged; only the removal of a leading number can change it.
\<close>

lemma clean_form_steps:
  assumes good: "\<forall>w \<in> set ts. length w > 1 \<and> (\<forall>c \<in> set w. isKept c \<and> \<not> isSpace c)"
  shows "removeSpecial (normalizeWhitespace (joinSpace ts)) = joinSpace ts"
    and "ts \<noteq> [] \<Longrightarrow> filter (\<lambda>word. length word > 1) (splitSpace (trim (joinSpace ts))) = ts"
proof -
  have ns: "\<forall>w \<in> set ts. w \<noteq> [] \<and> (\<forall>c \<in> set w. \<not> isSpace c)"
    using good by auto
  have kept: "\<forall>w \<in> set ts. \<forall>c \<in> set w. isKept c"
    using good by auto
  have no32: "\<forall>w \<in> set ts. 32 \<notin> set w"
    using good isSpace_32 by auto
  show "removeSpecial (normalizeWhitespace (joinSpace ts)) = joinSpace ts"
    by (simp add: normalizeWhitespace_joinSpace [OF ns] removeSpecial_joinSpace [OF kept])
  show "filter (\<lambda>word. length word > 1) (splitSpace (trim (joinSpace ts))) = ts" if "ts \<noteq> []"
    using good by (simp add: trim_joinSpace [OF ns] splitSpace_joinSpace [OF that no32])
qed

lemma clean_form_fixed:
  assumes good: "\<forall>w \<in> set ts. length w > 1 \<and> (\<forall>c \<in> set w. isKept c \<and> \<not> isSpace c)"
    and nd: "\<not> startsWithDigit (joinSpace ts)"
  shows "cleanBookTitle (joinSpace ts) = joinSpace ts"
proof (cases "ts = []")
  case True
  then show ?thesis by (simp add: cleanBookTitle_empty)
next
  case False
  have "cleanBookTitle (joinSpace ts)
      = joinSpace (filter (\<lambda>word. length word > 1) (splitSpace (trim (removeLeadingNumber
          (removeSpecial (normalizeWhitespace (joinSpace ts)))))))"
    by (simp only: cleanBookTitle_def)
  also have "\<dots> = joinSpace (filter (\<lambda>word. length word > 1) (splitSpace (trim (joinSpace ts))))"
    by (simp only: clean_form_steps(1) [OF good] removeLeadingNumber_id [OF nd])
  also have "\<dots> = joinSpace ts"
    by (simp only: clean_form_steps(2) [OF good False])
  finally show ?thesis .
qed

lemma length_splitSpace:
  "sum_list (map length (splitSpace s)) + length (splitSpace s) = length s + 1"
proof (induction s)
  case Nil
  show ?case by simp
next
  case (Cons c cs)
  then show ?case
    by (cases "splitSpace cs") (simp_all split: if_splits)
qed

lemma length_joinSpace:
  "ts \<noteq> [] \<Longrightarrow> length (joinSpace ts) + 1 = sum_list (map length ts) + length ts"
  by (induction ts rule: joinSpace.induct) simp_all

lemma length_filter_tokens:
  "sum_list (map length (filter P ts)) + length (filter P ts)
     \<le> sum_list (map length ts) + length ts"
  by (induction ts) simp_all

lemma length_join_filter_split:
  "length (joinSpace (filter P (splitSpace s))) \<le> length s"
proof (cases "filter P (splitSpace s) = []")
  case True
  then show ?thesis by simp
next
  case False
  have "length (joinSpace (filter P (splitSpace s))) + 1
      = sum_list (map length (filter P (splitSpace s))) + length (filter P (splitSpace s))"
    using False by (rule length_joinSpace)
  then show ?thesis
    using length_filter_tokens [of P "splitSpace s"] length_splitSpace [of s] by linarith
qed

lemma length_trim: "length (trim s) \<le> length s"
proof -
  have "length (trim s) = length (dropWhile isSpace (rev (dropWhile isSpace s)))"
    by (simp add: trim_def)
  also have "\<dots> \<le> length (rev (dropWhile isSpace s))"
    by (rule length_dropWhile_le)
  also have "\<dots> = length (dropWhile isSpace s)"
    by simp
  also have "\<dots> \<le> length s"
    by (rule length_dropWhile_le)
  finally show ?thesis .
qed

lemma length_removeLeadingNumber:
  assumes "startsWithDigit s"
  shows "length (removeLeadingNumber s) < length s"
proof -
  obtain c cs where s: "s = c # cs" and c: "isDigit c"
    using assms by (cases s) (simp_all add: startsWithDigit_def)
  have "length (removeLeadingNumber s) = length (dropWhile isSpace (dropWhile isDigit cs))"
    by (simp add: removeLeadingNumber_def s c)
  also have "\<dots> \<le> length (dropWhile isDigit cs)"
    by (rule length_dropWhile_le)
  also have "\<dots> \<le> length cs"
    by (rule length_dropWhile_le)
  finally show ?thesis by (simp add: s)
qed

lemma clean_form_shrinks:
  assumes good: "\<forall>w \<in> set ts. length w > 1 \<and> (\<forall>c \<in> set w. isKept c \<and> \<not> isSpace c)"
    and d: "startsWithDigit (joinSpace ts)"
  shows "length (cleanBookTitle (joinSpace ts)) < length (joinSpace ts)"
proof -
  let ?t = "joinSpace ts"
  have "cleanBookTitle ?t
      = joinSpace (filter (\<lambda>word. length word > 1) (splitSpace (trim (removeLeadingNumber
          (removeSpecial (normalizeWhitespace ?t))))))"
    by (simp only: cleanBookTitle_def)
  also have "\<dots> = joinSpace (filter (\<lambda>word. length word > 1)
                      (splitSpace (trim (removeLeadingNumber ?t))))"
    by (simp only: clean_form_steps(1) [OF good])
  finally have "length (cleanBookTitle ?t) \<le> length (trim (removeLeadingNumber ?t))"
    by (simp only: length_join_filter_split)
  also have "\<dots> \<le> length (removeLeadingNumber ?t)"
    by (rule length_trim)
  also have "\<dots> < length ?t"
    using d by (rule length_removeLeadingNumber)
  finally show ?thesis .
qed

text \<open>
  Claim C2, as stated, fails: the leading number is removed once, before the one-letter
  tokens are dropped, so a cleaned title can itself start with a digit, and a second
  cleanup removes it.
\<close>

theorem leading_digit_counterexample:
  "cleanBookTitle (js ''1 2ab'') = js ''2ab''
   \<and> cleanBookTitle (cleanBookTitle (js ''1 2ab'')) = js ''ab''
   \<and> cleanBookTitle (cleanBookTitle (js ''1 2ab'')) \<noteq> cleanBookTitle (js ''1 2ab'')"
  by (simp add: clean_examples) (simp add: js_def)

text \<open>
  Claim C2, amended: \<open>cleanBookTitle (cleanBookTitle s) = cleanBookTitle s\<close> holds
  exactly for the strings \<open>s\<close> whose cleaned title does not start with a digit.
\<close>

theorem cleanBookTitle_idempotent_iff:
  "cleanBookTitle (cleanBookTitle s) = cleanBookTitle s
     \<longleftrightarrow> \<not> startsWithDigit (cleanBookTitle s)"
proof -
  define ts where "ts = filter (\<lambda>word. length word > 1)
     (splitSpace (trim (removeLeadingNumber (removeSpecial (normalizeWhitespace s)))))"
  have t: "cleanBookTitle s = joinSpace ts"
    by (simp only: cleanBookTitle_def ts_def)
  have good: "\<forall>w \<in> set ts. length w > 1 \<and> (\<forall>c \<in> set w. isKept c \<and> \<not> isSpace c)"
    unfolding ts_def using clean_tokens [of _ s] by blast
  show ?thesis
  proof (cases "startsWithDigit (joinSpace ts)")
    case True
    then have "length (cleanBookTitle (joinSpace ts)) < length (joinSpace ts)"
      using good by (intro clean_form_shrinks)
    then have "cleanBookTitle (joinSpace ts) \<noteq> joinSpace ts"
      by auto
    then show ?thesis
      using True by (simp only: t) simp
  next
    case False
    then have "cleanBookTitle (joinSpace ts) = joinSpace ts"
      using good by (intro clean_form_fixed)
    then show ?thesis
      using False by (simp only: t) simp
  qed
qed

theorem cleanBookTitle_idempotent_iff_witness:
  "\<not> startsWithDigit (cleanBookTitle (js ''3   The Lord-of the Rings!!''))
   \<and> cleanBookTitle (js ''3   The Lord-of the Rings!!'') = js ''The Lord-of the Rings''
   \<and> cleanBookTitle (cleanBookTitle (js ''3   The Lord-of the Rings!!''))
       = cleanBookTitle (js ''3   The Lord-of the Rings!!'')
   \<and> startsWithDigit (cleanBookTitle (js ''1 2ab''))"
proof -
  have n: "\<not> startsWithDigit (cleanBookTitle (js ''3   The Lord-of the Rings!!''))"
    by (simp add: clean_examples) (simp add: js_def startsWithDigit_def isDigit_def)
  have d: "startsWithDigit (cleanBookTitle (js ''1 2ab''))"
    by (simp add: clean_examples) (simp add: js_def startsWithDigit_def isDigit_def)
  show ?thesis
    using n d cleanBookTitle_idempotent_iff [of "js ''3   The Lord-of the Rings!!''"]
    by (simp add: clean_examples)
qed

section \<open>Properties of the numeric tests\<close>

subsection \<open>Rounding to double precision\<close>

lemma roundHalfEven_int: "roundHalfEven (of_int z) = z"
  by (simp add: roundHalfEven_def)

lemma roundHalfEven_nearest:
  assumes "of_int m - 1 / 2 < y" "y < of_int m + 1 / 2"
  shows "roundHalfEven y = m"
proof (cases "of_int m \<le> y")
  case True
  then have "\<lfloor>y\<rfloor> = m"
    using assms by (intro floor_unique) auto
  then show ?thesis
    using assms by (simp add: roundHalfEven_def)
next
  case False
  then have "\<lfloor>y\<rfloor> = m - 1"
    using assms by (intro floor_unique) auto
  then show ?thesis
    using assms False by (simp add: roundHalfEven_def)
qed

lemma roundHalfEven_tie:
  assumes "y = of_int f + 1 / 2"
  shows "roundHalfEven y = (if even f then f else f + 1)"
proof -
  have "\<lfloor>y\<rfloor> = f"
    using assms by (intro floor_unique) auto
  then show ?thesis
    using assms by (simp add: roundHalfEven_def)
qed

lemma roundHalfEven_bounds: "\<lfloor>y\<rfloor> \<le> roundHalfEven y" "roundHalfEven y \<le> \<lfloor>y\<rfloor> + 1"
  by (simp_all add: roundHalfEven_def Let_def)

lemma roundHalfEven_ge:
  assumes "of_int n \<le> y"
  shows "n \<le> roundHalfEven y"
proof -
  have "n \<le> \<lfloor>y\<rfloor>"
    using assms by (simp add: le_floor_iff)
  then show ?thesis
    using roundHalfEven_bounds(1) [of y] by linarith
qed

lemma roundHalfEven_le:
  assumes "y \<le> of_int n"
  shows "roundHalfEven y \<le> n"
proof (cases "y = of_int n")
  case True
  then show ?thesis by (simp add: roundHalfEven_int)
next
  case False
  then have "y < of_int n"
    using assms by simp
  then have "\<lfloor>y\<rfloor> < n"
    by (simp add: floor_less_iff)
  then show ?thesis
    using roundHalfEven_bounds(2) [of y] by linarith
qed

lemma quantum_eq:
  assumes "2 powr of_int k \<le> \<bar>x\<bar>" "\<bar>x\<bar> < 2 powr of_int (k + 1)" "- 1022 \<le> k"
  shows "quantum x = 2 powr (of_int k - 52)"
proof -
  have "(0::real) < 2 powr of_int k"
    by simp
  then have "0 < \<bar>x\<bar>"
    using assms(1) by linarith
  then have "\<lfloor>log 2 \<bar>x\<bar>\<rfloor> = k"
    using assms(1,2) by (simp add: floor_log_eq_powr_iff)
  then show ?thesis
    using assms(3) by (simp add: quantum_def)
qed

lemma quantum_pos: "0 < quantum x"
  by (simp add: quantum_def)

lemma fl64_eq: "x \<noteq> 0 \<Longrightarrow> fl64 x = of_int (roundHalfEven (x / quantum x)) * quantum x"
  by (simp add: fl64_def)

text \<open>A number that is a multiple of a power of two, with at most 53 bits, is a double.\<close>

lemma fl64_representable:
  assumes x: "x = of_int m * 2 powr of_int e" and m: "\<bar>m\<bar> < 2 ^ 53" and e: "- 1074 \<le> e"
  shows "fl64 x = x"
proof (cases "m = 0")
  case True
  then show ?thesis by (simp add: x fl64_def)
next
  case False
  define L where "L = \<lfloor>log 2 \<bar>x\<bar>\<rfloor>"
  define E where "E = max L (- 1022)"
  have pos: "0 < \<bar>x\<bar>"
    using False by (simp add: x)
  have "\<bar>x\<bar> = of_int \<bar>m\<bar> * 2 powr of_int e"
    by (simp add: x abs_mult)
  also have "\<dots> < 2 ^ 53 * 2 powr of_int e"
  proof -
    have "(of_int \<bar>m\<bar> :: real) < of_int (2 ^ 53)"
      using m by (simp only: of_int_less_iff)
    then show ?thesis by simp
  qed
  also have "\<dots> = 2 powr of_int (e + 53)"
    by (simp add: powr_add powr_realpow [symmetric] mult.commute)
  finally have up: "\<bar>x\<bar> < 2 powr of_int (e + 53)" .
  have "2 powr of_int L \<le> \<bar>x\<bar>"
    using pos floor_log_eq_powr_iff [of "\<bar>x\<bar>" 2 L] by (simp add: L_def)
  then have "2 powr of_int L < (2::real) powr of_int (e + 53)"
    using up by linarith
  then have "L < e + 53"
    by simp
  then have le: "E \<le> e + 52"
    using e by (simp add: E_def)
  define d where "d = nat (e + 52 - E)"
  have d: "of_int E - 52 + real d = of_int e"
    using le by (simp add: d_def)
  have q: "quantum x = 2 powr (of_int E - 52)"
    by (simp add: quantum_def L_def E_def)
  have "(2::real) powr of_int e = 2 powr ((of_int E - 52) + real d)"
    by (simp only: d)
  also have "\<dots> = 2 powr (of_int E - 52) * 2 powr real d"
    by (rule powr_add)
  also have "\<dots> = 2 powr (of_int E - 52) * 2 ^ d"
    by (simp add: powr_realpow)
  finally have x2: "x = of_int m * (2 powr (of_int E - 52) * 2 ^ d)"
    by (simp only: x)
  have "of_int (m * 2 ^ d) * quantum x = of_int m * (2 powr (of_int E - 52) * 2 ^ d)"
    by (simp add: q)
  with x2 have xq: "x = of_int (m * 2 ^ d) * quantum x"
    by (simp only:)
  have "quantum x \<noteq> 0"
    by (simp add: q)
  then have "of_int (m * 2 ^ d) * quantum x / quantum x = (of_int (m * 2 ^ d) :: real)"
    by (rule nonzero_mult_div_cancel_right)
  with xq have "x / quantum x = of_int (m * 2 ^ d)"
    by (simp only:)
  then have "roundHalfEven (x / quantum x) = m * 2 ^ d"
    by (simp only: roundHalfEven_int)
  then have "fl64 x = of_int (m * 2 ^ d) * quantum x"
    using pos by (simp add: fl64_def)
  then show ?thesis
    using xq by simp
qed

lemma fl64_numeral:
  "(numeral n :: int) < 2 ^ 53 \<Longrightarrow> fl64 (numeral n) = numeral n"
  using fl64_representable [of "numeral n" "numeral n" 0] by simp

lemma fl64_neg_numeral:
  "(numeral n :: int) < 2 ^ 53 \<Longrightarrow> fl64 (- numeral n) = - numeral n"
  using fl64_representable [of "- numeral n" "- numeral n" 0] by simp

lemma powr_neg_one: "(2::real) powr of_int (- 1) = 1 / 2"
  by (simp add: powr_minus inverse_eq_divide)

lemma powr_neg_two: "(2::real) powr of_int (- 2) = 1 / 4"
  by (simp add: powr_minus inverse_eq_divide)

lemma fl64_half:
  assumes "(numeral n :: int) < 2 ^ 53"
  shows "fl64 (numeral n / 2) = numeral n / 2"
proof (rule fl64_representable)
  show "numeral n / 2 = real_of_int (numeral n) * 2 powr of_int (- 1)"
    by (simp only: powr_neg_one) simp
  show "\<bar>numeral n :: int\<bar> < 2 ^ 53"
    using assms by simp
  show "- 1074 \<le> (- 1 :: int)"
    by simp
qed

lemma fl64_neg_half:
  assumes "(numeral n :: int) < 2 ^ 53"
  shows "fl64 (- (numeral n / 2)) = - (numeral n / 2)"
proof (rule fl64_representable)
  show "- (numeral n / 2) = real_of_int (- numeral n) * 2 powr of_int (- 1)"
    by (simp only: powr_neg_one) simp
  show "\<bar>- numeral n :: int\<bar> < 2 ^ 53"
    using assms by simp
  show "- 1074 \<le> (- 1 :: int)"
    by simp
qed

lemma fl64_quarter:
  assumes "(numeral n :: int) < 2 ^ 53"
  shows "fl64 (numeral n / 4) = numeral n / 4"
proof (rule fl64_representable)
  show "numeral n / 4 = real_of_int (numeral n) * 2 powr of_int (- 2)"
    by (simp only: powr_neg_two) simp
  show "\<bar>numeral n :: int\<bar> < 2 ^ 53"
    using assms by simp
  show "- 1074 \<le> (- 2 :: int)"
    by simp
qed

lemma fl64_0: "fl64 0 = 0"
  by (simp add: fl64_def)

lemma fl64_1: "fl64 1 = 1"
  using fl64_representable [of 1 1 0] by simp

lemmas fl64_small = fl64_0 fl64_1 fl64_numeral fl64_neg_numeral fl64_half fl64_neg_half fl64_quarter

lemma fl64_dyadic:
  assumes "of_int \<lfloor>x * 2 ^ n\<rfloor> = x * 2 ^ n" "\<bar>x * 2 ^ n\<bar> < 2 ^ 53" "n \<le> 1074"
  shows "fl64 x = x"
proof (rule fl64_representable [of x "\<lfloor>x * 2 ^ n\<rfloor>" "- int n"])
  have "(2::real) powr of_int (- int n) = 1 / 2 ^ n"
    by (simp add: powr_minus inverse_eq_divide powr_realpow)
  then show "x = of_int \<lfloor>x * 2 ^ n\<rfloor> * 2 powr of_int (- int n)"
    by (simp add: assms(1))
  have "\<bar>of_int \<lfloor>x * 2 ^ n\<rfloor> :: real\<bar> < of_int (2 ^ 53)"
    using assms(2) by (simp add: assms(1))
  then show "\<bar>\<lfloor>x * 2 ^ n\<rfloor>\<bar> < 2 ^ 53"
    by (metis of_int_abs of_int_less_iff)
  show "- 1074 \<le> - int n"
    using assms(3) by simp
qed

lemmas fl64_eval = fl64_small fl64_dyadic [where n = 52] fl64_dyadic [where n = 53]

lemmas fl64_eval2 = fl64_eval fl64_dyadic [where n = 46] fl64_dyadic [where n = 47]

text \<open>
  The rounding of a number between two neighbouring doubles of the binade of
  \<open>2\<close> to the power \<open>k\<close>: to the nearer one, and from the midpoint to the even one.
\<close>

lemma binade_quantum:
  "(2::real) powr (of_int (int k) - 52) = 2 ^ k / 2 ^ 52"
proof -
  have "(2::real) powr (of_int (int k) - 52) = 2 powr (real k + (- 52))"
    by simp
  also have "\<dots> = 2 powr real k * 2 powr (- 52)"
    by (rule powr_add)
  also have "2 powr real k = (2::real) ^ k"
    by (simp add: powr_realpow)
  also have "(2::real) powr (- 52) = 1 / 2 ^ 52"
    by (simp add: powr_minus inverse_eq_divide)
  finally show ?thesis by simp
qed

lemma fl64_nearest:
  fixes k :: nat
  assumes "2 ^ k \<le> \<bar>x\<bar>" "\<bar>x\<bar> < 2 ^ (k + 1)"
    and "of_int m - 1 / 2 < x * 2 ^ 52 / 2 ^ k" "x * 2 ^ 52 / 2 ^ k < of_int m + 1 / 2"
  shows "fl64 x = of_int m * 2 ^ k / 2 ^ 52"
proof -
  have q: "quantum x = 2 powr (of_int (int k) - 52)"
    using assms(1,2) by (intro quantum_eq) (simp_all add: powr_realpow powr_add)
  have q2: "quantum x = 2 ^ k / 2 ^ 52"
    by (simp only: q binade_quantum)
  have "x / quantum x = x * 2 ^ 52 / 2 ^ k"
    by (simp add: q2)
  then have "roundHalfEven (x / quantum x) = m"
    using assms(3,4) by (intro roundHalfEven_nearest) simp_all
  moreover have "x \<noteq> 0"
  proof
    assume "x = 0"
    then have "(2::real) ^ k \<le> 0"
      using assms(1) by simp
    moreover have "(0::real) < 2 ^ k"
      by simp
    ultimately show False
      by linarith
  qed
  ultimately show ?thesis
    by (simp add: fl64_def q2)
qed

lemma fl64_tie:
  fixes k :: nat
  assumes "2 ^ k \<le> \<bar>x\<bar>" "\<bar>x\<bar> < 2 ^ (k + 1)"
    and "x * 2 ^ 52 / 2 ^ k = of_int f + 1 / 2"
  shows "fl64 x = of_int (if even f then f else f + 1) * 2 ^ k / 2 ^ 52"
proof -
  have q: "quantum x = 2 powr (of_int (int k) - 52)"
    using assms(1,2) by (intro quantum_eq) (simp_all add: powr_realpow powr_add)
  have q2: "quantum x = 2 ^ k / 2 ^ 52"
    by (simp only: q binade_quantum)
  have "x / quantum x = x * 2 ^ 52 / 2 ^ k"
    by (simp add: q2)
  then have "roundHalfEven (x / quantum x) = (if even f then f else f + 1)"
    using assms(3) by (simp only: roundHalfEven_tie)
  moreover have "x \<noteq> 0"
  proof
    assume "x = 0"
    then have "(2::real) ^ k \<le> 0"
      using assms(1) by simp
    moreover have "(0::real) < 2 ^ k"
      by simp
    ultimately show False
      by linarith
  qed
  ultimately show ?thesis
    by (simp add: fl64_def q2)
qed

lemma fl64_sqrt2: "fl64 (sqrt 2) = 6369051672525773 / 2 ^ 52"
proof -
  have lo: "(6369051672525773 - 1 / 2) / 2 ^ 52 < sqrt 2"
    by (rule real_less_rsqrt) (simp add: power2_eq_square)
  have hi: "sqrt 2 < (6369051672525773 + 1 / 2) / 2 ^ 52"
    by (rule real_less_lsqrt) (simp_all add: power2_eq_square)
  have "1 \<le> sqrt 2" "sqrt 2 < 2"
    using lo hi by simp_all
  then show ?thesis
    using lo hi fl64_nearest [of 0 "sqrt 2" 6369051672525773] by simp
qed

lemma fl64_round_sum: "fl64 (9851624184872961 / 70368744177664) = 140"
  using fl64_tie [of 7 "9851624184872961 / 70368744177664" "140 * 2 ^ 45"] by simp

text \<open>Rounding keeps the sign, is monotone above a double, and leaves a rounded number alone.\<close>

lemma fl64_nonneg:
  assumes "0 \<le> x"
  shows "0 \<le> fl64 x"
proof (cases "x = 0")
  case True
  then show ?thesis by (simp add: fl64_0)
next
  case False
  have "of_int 0 \<le> x / quantum x"
    using assms quantum_pos [of x] by simp
  then have "0 \<le> roundHalfEven (x / quantum x)"
    by (rule roundHalfEven_ge)
  then show ?thesis
    using quantum_pos [of x] False by (simp add: fl64_eq)
qed

lemma log_floor_bounds:
  assumes "0 < x"
  shows "2 powr of_int \<lfloor>log 2 x\<rfloor> \<le> x" "x < 2 powr of_int (\<lfloor>log 2 x\<rfloor> + 1)"
  using assms floor_log_eq_powr_iff [of x 2 "\<lfloor>log 2 x\<rfloor>"] by simp_all

lemma log_floor_mono:
  assumes "0 < x" "x \<le> y"
  shows "\<lfloor>log 2 x\<rfloor> \<le> \<lfloor>log 2 y\<rfloor>"
proof -
  have "log 2 x \<le> log 2 y"
    using assms by simp
  then show ?thesis
    by (rule floor_mono)
qed

lemma fl64_ge:
  assumes H: "fl64 H = H" and pos: "0 < H" and le: "H \<le> y"
  shows "H \<le> fl64 y"
proof -
  define kH where "kH = max \<lfloor>log 2 H\<rfloor> (- 1022)"
  define ky where "ky = max \<lfloor>log 2 y\<rfloor> (- 1022)"
  have y: "0 < y" using pos le by simp
  have qH: "quantum H = 2 powr (of_int kH - 52)"
    using pos by (simp add: quantum_def kH_def)
  have qy: "quantum y = 2 powr (of_int ky - 52)"
    using y by (simp add: quantum_def ky_def)
  have mono: "kH \<le> ky"
    using log_floor_mono [OF pos le] by (simp add: kH_def ky_def)
  have fy: "fl64 y = of_int (roundHalfEven (y / quantum y)) * quantum y"
    using y by (simp add: fl64_eq)
  show ?thesis
  proof (cases "kH = ky")
    case True
    then have q: "quantum H = quantum y"
      by (simp add: qH qy)
    define n where "n = roundHalfEven (H / quantum y)"
    have Hn: "H = of_int n * quantum y"
      using H pos by (simp add: fl64_eq q n_def)
    have "of_int n * quantum y \<le> y"
      using le Hn by simp
    then have "of_int n \<le> y / quantum y"
      using quantum_pos [of y] by (simp add: pos_le_divide_eq)
    then have "n \<le> roundHalfEven (y / quantum y)"
      by (rule roundHalfEven_ge)
    then have "of_int n * quantum y \<le> of_int (roundHalfEven (y / quantum y)) * quantum y"
      using quantum_pos [of y] by (simp add: mult_right_mono)
    then show ?thesis
      using Hn fy by simp
  next
    case False
    then have lt: "kH < ky" using mono by simp
    then have "- 1022 < ky"
      by (simp add: kH_def)
    then have ky: "ky = \<lfloor>log 2 y\<rfloor>"
      unfolding ky_def by linarith
    have "\<lfloor>log 2 H\<rfloor> + 1 \<le> ky"
      using lt by (simp add: kH_def)
    then have "(2::real) powr of_int (\<lfloor>log 2 H\<rfloor> + 1) \<le> 2 powr of_int ky"
      by simp
    then have Hlt: "H < 2 powr of_int ky"
      using log_floor_bounds(2) [OF pos] by linarith
    have "2 powr of_int ky \<le> y"
      using log_floor_bounds(1) [OF y] by (simp add: ky)
    then have "2 powr of_int ky / quantum y \<le> y / quantum y"
      using quantum_pos [of y] by (simp add: divide_right_mono)
    moreover have "2 powr of_int ky / quantum y = of_int (2 ^ 52)"
    proof -
      have "(2::real) powr (of_int ky - (of_int ky - 52))
          = 2 powr of_int ky / 2 powr (of_int ky - 52)"
        by (rule powr_diff)
      then show ?thesis
        by (simp add: qy)
    qed
    ultimately have "of_int (2 ^ 52) \<le> y / quantum y"
      by simp
    then have "2 ^ 52 \<le> roundHalfEven (y / quantum y)"
      by (rule roundHalfEven_ge)
    then have "(of_int (2 ^ 52) :: real) \<le> of_int (roundHalfEven (y / quantum y))"
      by (simp only: of_int_le_iff)
    then have "of_int (2 ^ 52) * quantum y \<le> fl64 y"
      using quantum_pos [of y] by (simp only: fy mult_right_mono less_imp_le)
    moreover have "of_int (2 ^ 52) * quantum y = 2 powr of_int ky"
    proof -
      have "(2::real) powr 52 * 2 powr (of_int ky - 52) = 2 powr (52 + (of_int ky - 52))"
        by (rule powr_add [symmetric])
      then show ?thesis
        by (simp add: qy)
    qed
    ultimately show ?thesis
      using Hlt by linarith
  qed
qed

lemma fl64_idem:
  assumes "0 \<le> x"
  shows "fl64 (fl64 x) = fl64 x"
proof (cases "x = 0")
  case True
  then show ?thesis by (simp add: fl64_0)
next
  case False
  then have pos: "0 < x" using assms by simp
  define k where "k = max \<lfloor>log 2 x\<rfloor> (- 1022)"
  define n where "n = roundHalfEven (x / quantum x)"
  have q: "quantum x = 2 powr of_int (k - 52)"
    using pos by (simp add: quantum_def k_def)
  have f: "fl64 x = of_int n * 2 powr of_int (k - 52)"
    using False by (simp add: fl64_eq n_def q)
  have "0 \<le> x / quantum x"
    using pos quantum_pos [of x] by simp
  then have "of_int 0 \<le> x / quantum x"
    by simp
  then have n0: "0 \<le> n"
    unfolding n_def by (rule roundHalfEven_ge)
  have "\<lfloor>log 2 x\<rfloor> + 1 \<le> k + 1"
    by (simp add: k_def)
  then have "(2::real) powr of_int (\<lfloor>log 2 x\<rfloor> + 1) \<le> 2 powr of_int (k + 1)"
    by simp
  then have "x < 2 powr of_int (k + 1)"
    using log_floor_bounds(2) [OF pos] by linarith
  then have "x / quantum x < 2 powr of_int (k + 1) / quantum x"
    using quantum_pos [of x] by (simp add: divide_strict_right_mono)
  moreover have "2 powr of_int (k + 1) / quantum x = of_int (2 ^ 53)"
  proof -
    have "(2::real) powr (of_int (k + 1) - of_int (k - 52))
        = 2 powr of_int (k + 1) / 2 powr of_int (k - 52)"
      by (rule powr_diff)
    then show ?thesis
      by (simp add: q)
  qed
  ultimately have "x / quantum x \<le> of_int (2 ^ 53)"
    by simp
  then have n53: "n \<le> 2 ^ 53"
    unfolding n_def by (rule roundHalfEven_le)
  show ?thesis
  proof (cases "n = 2 ^ 53")
    case True
    have "(2::real) powr 53 * 2 powr of_int (k - 52) = 2 powr (53 + of_int (k - 52))"
      by (rule powr_add [symmetric])
    then have "fl64 x = of_int 1 * 2 powr of_int (k + 1)"
      by (simp add: f True add.commute)
    then show ?thesis
      by (rule fl64_representable) (simp_all add: k_def)
  next
    case False
    then have "\<bar>n\<bar> < 2 ^ 53"
      using n0 n53 by simp
    with f show ?thesis
      by (rule fl64_representable) (simp add: k_def)
  qed
qed

subsection \<open>The two arithmetics\<close>

text \<open>With exact arithmetic the parametrised functions are the functions of the first part.\<close>

lemma exact_ops:
  "fadd exact a b = a + b" "fsub exact a b = a - b" "fmul exact a b = a * b"
  "fdiv exact a b = a / b" "fsqrt exact a = sqrt a" "fpow2 exact a = a\<^sup>2"
  by (simp_all add: exact_def)

lemma binary64_ops:
  "fadd binary64 a b = fl64 (a + b)" "fsub binary64 a b = fl64 (a - b)"
  "fmul binary64 a b = fl64 (a * b)" "fdiv binary64 a b = fl64 (a / b)"
  "fsqrt binary64 a = fl64 (sqrt a)" "fpow2 binary64 a = fl64 (a * a)"
  by (simp_all add: binary64_def)

lemma orientationScores_exact:
  "orientationScores_with exact ws h v = orientationScores ws h v"
  by (induction ws arbitrary: h v) (simp_all add: exact_ops Let_def)

lemma determineOrientation_exact:
  "determineOrientation_with exact ws = determineOrientation ws"
  by (simp add: determineOrientation_with_def determineOrientation_def orientationScores_exact)

lemma wordsClose_exact: "wordsClose_with exact w1 w2 = wordsClose w1 w2"
  by (simp add: wordsClose_with_def wordsClose_def exact_ops)

lemma regionsAligned_exact: "regionsAligned_with exact r1 r2 = regionsAligned r1 r2"
  by (simp add: regionsAligned_with_def regionsAligned_def exact_ops)

lemma groupWordsIntoRegions_exact:
  "groupWordsIntoRegions_with exact ws = groupWordsIntoRegions ws"
proof -
  have seed: "seedRegion_with exact = seedRegion"
    by (rule ext) (simp add: seedRegion_with_def seedRegion_def determineOrientation_exact)
  have add: "addWord_with exact = addWord"
    by (intro ext) (simp add: addWord_with_def addWord_def exact_ops)
  have step: "regionStep_with exact ws = regionStep ws"
    by (intro ext) (simp add: regionStep_with_def regionStep_def wordsClose_exact add split: prod.splits)
  have grow: "growRegion_with exact ws = growRegion ws"
    by (intro ext) (simp add: growRegion_with_def growRegion_def step seed)
  have "regionsStep_with exact ws = regionsStep ws"
    by (intro ext) (simp add: regionsStep_with_def regionsStep_def grow determineOrientation_exact split: prod.splits)
  then show ?thesis
    by (simp add: groupWordsIntoRegions_with_def groupWordsIntoRegions_def)
qed

lemma detectBookSpines_exact:
  "detectBookSpines_with exact rs = detectBookSpines rs"
proof -
  have add: "addRegion_with exact = addRegion"
    by (intro ext) (simp add: addRegion_with_def addRegion_def exact_ops)
  have step: "spineStep_with exact rs = spineStep rs"
    by (intro ext) (simp add: spineStep_with_def spineStep_def regionsAligned_exact add split: prod.splits)
  have grow: "growSpine_with exact rs = growSpine rs"
    by (intro ext) (simp add: growSpine_with_def growSpine_def step)
  have "spinesStep_with exact rs = spinesStep rs"
    by (intro ext) (simp add: spinesStep_with_def spinesStep_def grow split: prod.splits)
  moreover have "spineCenterY_with exact = spineCenterY"
    by (rule ext) (simp add: spineCenterY_with_def spineCenterY_def exact_ops)
  ultimately show ?thesis
    by (simp add: detectBookSpines_with_def detectBookSpines_def)
qed

subsection \<open>Orientation classifier: the reference definition\<close>

text \<open>
  The loop's two accumulators are the horizontal score and the vertical score of the
  words that fail the first test. On a box with \<open>x0 \<le> x1\<close> and \<open>y0 \<le> y1\<close> no word
  passes both tests, with exact arithmetic and in double precision.
\<close>

lemma orientationScores_with_fold:
  "orientationScores_with ar ws h v =
     (foldl (fadd ar) h (map word.confidence (filter (isWide_with ar) ws)),
      foldl (fadd ar) v
        (map word.confidence (filter (\<lambda>w. \<not> isWide_with ar w \<and> isTall_with ar w) ws)))"
  by (induction ws arbitrary: h v)
    (simp_all add: Let_def isWide_with_def isTall_with_def wordWidth_with_def wordHeight_with_def)

lemma exclusive_vertical:
  assumes "\<forall>w \<in> set ws. \<not> (isWide_with ar w \<and> isTall_with ar w)"
  shows "verticalScoreElse_with ar ws = verticalScore_with ar ws"
proof -
  have "filter (\<lambda>w. \<not> isWide_with ar w \<and> isTall_with ar w) ws = filter (isTall_with ar) ws"
    using assms by (intro filter_cong) auto
  then show ?thesis
    by (simp add: verticalScoreElse_with_def verticalScore_with_def)
qed

lemma exact_exclusive:
  assumes "bbox_ok (word.bbox w)"
  shows "\<not> (isWide_with exact w \<and> isTall_with exact w)"
  using assms
  by (simp add: bbox_ok_def isWide_with_def isTall_with_def wordWidth_with_def wordHeight_with_def
      exact_ops)

lemma binary64_exclusive:
  assumes "bbox_ok (word.bbox w)"
  shows "\<not> (isWide_with binary64 w \<and> isTall_with binary64 w)"
proof
  assume both: "isWide_with binary64 w \<and> isTall_with binary64 w"
  define W where "W = fl64 (x1 (word.bbox w) - x0 (word.bbox w))"
  define H where "H = fl64 (y1 (word.bbox w) - y0 (word.bbox w))"
  have W0: "0 \<le> W" and H0: "0 \<le> H"
    using assms by (simp_all add: W_def H_def bbox_ok_def fl64_nonneg)
  have Wd: "fl64 W = W" and Hd: "fl64 H = H"
    using assms by (simp_all add: W_def H_def bbox_ok_def fl64_idem)
  have wide: "W > fl64 (H * 1.5)" and tall: "H > fl64 (W * 1.5)"
    using both
    by (simp_all add: isWide_with_def isTall_with_def wordWidth_with_def wordHeight_with_def
        binary64_ops W_def H_def)
  have "0 \<le> fl64 (H * 1.5)" "0 \<le> fl64 (W * 1.5)"
    using W0 H0 by (simp_all add: fl64_nonneg)
  then have Wp: "0 < W" and Hp: "0 < H"
    using wide tall by linarith+
  have "H \<le> fl64 (H * 1.5)"
    using Hd Hp by (rule fl64_ge) (use Hp in simp)
  moreover have "W \<le> fl64 (W * 1.5)"
    using Wd Wp by (rule fl64_ge) (use Wp in simp)
  ultimately show False
    using wide tall by linarith
qed

lemma negWord_scores:
  "isWide_with binary64 negWord" "isTall_with binary64 negWord"
  by (simp_all add: isWide_with_def isTall_with_def wordWidth_with_def wordHeight_with_def
      binary64_ops negWord_def fl64_small)

lemma roundWord_width: "wordWidth_with binary64 roundWord = 3 / 2 + 1 / 2 ^ 51"
proof -
  have "fl64 (3 / 2 + 1 / 2 ^ 51) = 3 / 2 + 1 / 2 ^ 51"
    by (rule fl64_representable [of _ "3 * 2 ^ 50 + 1" "- 51"])
      (simp_all add: powr_minus inverse_eq_divide)
  then show ?thesis
    by (simp add: wordWidth_with_def binary64_ops roundWord_def)
qed

lemma roundWord_height: "wordHeight_with binary64 roundWord = 1 + 1 / 2 ^ 52"
proof -
  have "fl64 (1 + 1 / 2 ^ 52) = 1 + 1 / 2 ^ 52"
    by (rule fl64_representable [of _ "2 ^ 52 + 1" "- 52"])
      (simp_all add: powr_minus inverse_eq_divide)
  then show ?thesis
    by (simp add: wordHeight_with_def binary64_ops roundWord_def)
qed

lemma roundWord_products:
  "fmul binary64 (1 + 1 / 2 ^ 52) 1.5 = 3 / 2 + 1 / 2 ^ 51"
  "fmul binary64 (3 / 2 + 1 / 2 ^ 51) 1.5 = 9 / 4 + 1 / 2 ^ 50"
proof -
  show "fmul binary64 (1 + 1 / 2 ^ 52) 1.5 = 3 / 2 + 1 / 2 ^ 51"
    using fl64_tie [of 0 "(1 + 1 / 2 ^ 52) * 1.5" "3 * 2 ^ 51 + 1"]
    by (simp add: binary64_ops)
  show "fmul binary64 (3 / 2 + 1 / 2 ^ 51) 1.5 = 9 / 4 + 1 / 2 ^ 50"
    using fl64_tie [of 1 "(3 / 2 + 1 / 2 ^ 51) * 1.5" "9 * 2 ^ 49 + 1"]
    by (simp add: binary64_ops)
qed

lemma roundWord_tests:
  "\<not> isWide_with binary64 roundWord" "\<not> isTall_with binary64 roundWord"
proof -
  have "isWide_with binary64 roundWord \<longleftrightarrow> (3 / 2 + 1 / 2 ^ 51 :: real) > 3 / 2 + 1 / 2 ^ 51"
    by (simp only: isWide_with_def roundWord_width roundWord_height roundWord_products)
  then show "\<not> isWide_with binary64 roundWord"
    by simp
  have "isTall_with binary64 roundWord \<longleftrightarrow> (1 + 1 / 2 ^ 52 :: real) > 9 / 4 + 1 / 2 ^ 50"
    by (simp only: isTall_with_def roundWord_width roundWord_height roundWord_products)
  then show "\<not> isTall_with binary64 roundWord"
    by simp
qed

lemma roundWord_doubles: "boxDoubles (word.bbox roundWord)"
proof -
  have a: "fl64 (3 / 2 + 1 / 2 ^ 51) = 3 / 2 + 1 / 2 ^ 51"
    by (rule fl64_representable [of _ "3 * 2 ^ 50 + 1" "- 51"])
      (simp_all add: powr_minus inverse_eq_divide)
  have b: "fl64 (1 + 1 / 2 ^ 52) = 1 + 1 / 2 ^ 52"
    by (rule fl64_representable [of _ "2 ^ 52 + 1" "- 52"])
      (simp_all add: powr_minus inverse_eq_divide)
  from a b show ?thesis
    by (simp add: boxDoubles_def isDouble_def roundWord_def fl64_0)
qed

text \<open>
  Claim C8, as stated, fails. A word with the box \<open>(10, 10, 0, 0)\<close> has width and
  height \<open>-10\<close> and passes both tests; the code adds its confidence to the horizontal
  score only and returns horizontal, the reference definition adds it to both scores
  and gives vertical. And with the tests taken over the reals the reference differs
  from the code on a well-formed box whose coordinates are doubles: the word of width
  \<open>1.5 + 2^-51\<close> and height \<open>1 + 2^-52\<close> is wider than 1.5 times its height, so the
  reference gives horizontal; in double precision 1.5 times the height rounds to the
  width, the test fails, and the code returns vertical.
\<close>

theorem orientation_reference_counterexample:
  "determineOrientation_with binary64 [negWord] = horizontal
   \<and> determineOrientation [negWord] = horizontal
   \<and> determineOrientation_spec_with binary64 [negWord] = vertical
   \<and> determineOrientation_spec [negWord] = vertical
   \<and> bbox_ok (word.bbox roundWord) \<and> boxDoubles (word.bbox roundWord)
   \<and> wordWidth roundWord > 1.5 * wordHeight roundWord
   \<and> determineOrientation_spec [roundWord] = horizontal
   \<and> determineOrientation_with binary64 [roundWord] = vertical"
proof -
  have n1: "determineOrientation_with binary64 [negWord] = horizontal"
    using negWord_scores
    by (simp add: determineOrientation_with_def orientationScores_with_fold)
      (simp add: binary64_ops negWord_def fl64_small)
  have n0: "determineOrientation [negWord] = horizontal"
    by (simp add: determineOrientation_def negWord_def)
  have n2: "determineOrientation_spec_with binary64 [negWord] = vertical"
    using negWord_scores
    by (simp add: determineOrientation_spec_with_def horizontalScore_with_def
        verticalScore_with_def)
  have n3: "determineOrientation_spec [negWord] = vertical"
    by (simp add: determineOrientation_spec_def horizontalScore_spec_def verticalScore_spec_def
        wordWidth_def wordHeight_def negWord_def)
  have r1: "bbox_ok (word.bbox roundWord)"
    by (simp add: bbox_ok_def roundWord_def)
  have r2: "wordWidth roundWord > 1.5 * wordHeight roundWord"
    by (simp add: wordWidth_def wordHeight_def roundWord_def)
  have r3: "determineOrientation_spec [roundWord] = horizontal"
    using r2
    by (simp add: determineOrientation_spec_def horizontalScore_spec_def verticalScore_spec_def)
      (simp add: wordWidth_def wordHeight_def roundWord_def)
  have r4: "determineOrientation_with binary64 [roundWord] = vertical"
    using roundWord_tests
    by (simp add: determineOrientation_with_def orientationScores_with_fold)
  show ?thesis
    using n1 n0 n2 n3 r1 roundWord_doubles r2 r3 r4 by simp
qed

text \<open>
  Claim C8, amended: \<open>determineOrientation\<close> returns horizontal on the empty list;
  otherwise each word whose width exceeds 1.5 times its height adds its confidence to
  the horizontal score, each other word whose height exceeds 1.5 times its width adds
  its confidence to the vertical score, and the result is horizontal exactly when the
  horizontal score is strictly greater. Widths, heights, products and sums are the
  ones the machine computes, the sums taken in input order. This is the reference
  definition, computed in the same arithmetic, whenever no word passes both tests:
  with exact arithmetic and in double precision that is the case whenever every box
  has \<open>x0 \<le> x1\<close> and \<open>y0 \<le> y1\<close>. With exact arithmetic the function is
  \<open>determineOrientation\<close> of the first part.
\<close>

theorem determineOrientation_reference:
  "determineOrientation_with ar ws =
     (if ws = [] then horizontal
      else if horizontalScore_with ar ws > verticalScoreElse_with ar ws then horizontal
      else vertical)
   \<and> ((\<forall>w \<in> set ws. \<not> (isWide_with ar w \<and> isTall_with ar w)) \<longrightarrow>
        determineOrientation_with ar ws = determineOrientation_spec_with ar ws)
   \<and> ((\<forall>w \<in> set ws. bbox_ok (word.bbox w)) \<longrightarrow>
        determineOrientation_with exact ws = determineOrientation_spec_with exact ws
        \<and> determineOrientation_with binary64 ws = determineOrientation_spec_with binary64 ws)
   \<and> determineOrientation_with exact ws = determineOrientation ws"
proof (intro conjI impI)
  show code: "determineOrientation_with ar ws =
     (if ws = [] then horizontal
      else if horizontalScore_with ar ws > verticalScoreElse_with ar ws then horizontal
      else vertical)" for ar
    by (simp add: determineOrientation_with_def orientationScores_with_fold
        horizontalScore_with_def verticalScoreElse_with_def)
  show excl: "determineOrientation_with ar ws = determineOrientation_spec_with ar ws"
    if "\<forall>w \<in> set ws. \<not> (isWide_with ar w \<and> isTall_with ar w)" for ar
    by (simp add: code determineOrientation_spec_with_def exclusive_vertical [OF that])
  show "determineOrientation_with exact ws = determineOrientation_spec_with exact ws"
    if "\<forall>w \<in> set ws. bbox_ok (word.bbox w)"
    using that by (intro excl) (simp add: exact_exclusive)
  show "determineOrientation_with binary64 ws = determineOrientation_spec_with binary64 ws"
    if "\<forall>w \<in> set ws. bbox_ok (word.bbox w)"
    using that by (intro excl) (simp add: binary64_exclusive)
  show "determineOrientation_with exact ws = determineOrientation ws"
    by (rule determineOrientation_exact)
qed

text \<open>
  In double precision a wide and a tall word of the same confidence tie and give
  vertical; the word of width \<open>1.5 + 2^-51\<close> gets vertical from the code and
  from the reference computed in double precision.
\<close>

theorem determineOrientation_reference_witness:
  "bbox_ok (word.bbox wideWord) \<and> bbox_ok (word.bbox tallWord)
   \<and> \<not> (isWide_with binary64 wideWord \<and> isTall_with binary64 wideWord)
   \<and> \<not> (isWide_with binary64 tallWord \<and> isTall_with binary64 tallWord)
   \<and> horizontalScore_with binary64 [wideWord, tallWord] = 90
   \<and> verticalScore_with binary64 [wideWord, tallWord] = 90
   \<and> determineOrientation_with binary64 [wideWord, tallWord] = vertical
   \<and> determineOrientation_with exact [wideWord, tallWord]
       = determineOrientation_spec_with exact [wideWord, tallWord]
   \<and> bbox_ok (word.bbox roundWord)
   \<and> determineOrientation_with binary64 [roundWord]
       = determineOrientation_spec_with binary64 [roundWord]
   \<and> determineOrientation_spec_with binary64 [roundWord] = vertical"
proof -
  have t: "isWide_with binary64 wideWord" "\<not> isTall_with binary64 wideWord"
    "\<not> isWide_with binary64 tallWord" "isTall_with binary64 tallWord"
    by (simp_all add: isWide_with_def isTall_with_def wordWidth_with_def wordHeight_with_def
        binary64_ops wideWord_def tallWord_def fl64_small)
  have ok: "\<forall>w \<in> set [wideWord, tallWord]. bbox_ok (word.bbox w)"
    by (simp add: wideWord_def tallWord_def bbox_ok_def)
  have ex: "\<forall>w \<in> set [wideWord, tallWord].
      \<not> (isWide_with binary64 w \<and> isTall_with binary64 w)"
    using t by simp
  have h: "horizontalScore_with binary64 [wideWord, tallWord] = 90"
    "verticalScore_with binary64 [wideWord, tallWord] = 90"
    using t by (simp_all add: horizontalScore_with_def verticalScore_with_def binary64_ops
        wideWord_def tallWord_def fl64_small)
  note th = determineOrientation_reference [of binary64 "[wideWord, tallWord]"]
  have "determineOrientation_with binary64 [wideWord, tallWord]
      = determineOrientation_spec_with binary64 [wideWord, tallWord]"
    using th ex by blast
  then have v: "determineOrientation_with binary64 [wideWord, tallWord] = vertical"
    by (simp add: determineOrientation_spec_with_def h)
  have e: "determineOrientation_with exact [wideWord, tallWord]
       = determineOrientation_spec_with exact [wideWord, tallWord]"
    using th ok by blast
  have ok2: "\<forall>w \<in> set [roundWord]. bbox_ok (word.bbox w)"
    by (simp add: roundWord_def bbox_ok_def)
  have r: "determineOrientation_with binary64 [roundWord]
      = determineOrientation_spec_with binary64 [roundWord]"
    using determineOrientation_reference [of binary64 "[roundWord]"] ok2 by blast
  have rv: "determineOrientation_spec_with binary64 [roundWord] = vertical"
    using roundWord_tests
    by (simp add: determineOrientation_spec_with_def horizontalScore_with_def
        verticalScore_with_def)
  show ?thesis
    using t ok ok2 h v e r rv by simp
qed

subsection \<open>Region grouper: the distance test\<close>

text \<open>
  The inner loop merges the later unused words that pass the distance test with the
  seed; the outer loop is the greedy grouping of the indices.
\<close>

lemma wordsClose_with_distance:
  "wordsClose_with ar w1 w2 \<longleftrightarrow>
     wordDistance_with ar w1 w2 < fmul ar (avgWordHeight_with ar w1 w2) 2"
  by (simp add: wordsClose_with_def wordDistance_with_def avgWordHeight_with_def
      wordCenterX_with_def wordCenterY_with_def wordHeight_with_def Let_def)

lemma regionStep_with_apply:
  "regionStep_with ar ws i j (r, u) =
     (if j \<in> u then (r, u)
      else if wordsClose_with ar (ws ! i) (ws ! j) then (addWord_with ar r (ws ! j), insert j u)
      else (r, u))"
  by (simp add: regionStep_with_def)

lemma fold_regionStep_with:
  assumes "distinct ks"
  shows "fold (regionStep_with ar ws i) ks (r, u) =
     (foldl (addWord_with ar) r
        (map ((!) ws) (filter (\<lambda>j. j \<notin> u \<and> wordsClose_with ar (ws ! i) (ws ! j)) ks)),
      u \<union> set (filter (\<lambda>j. j \<notin> u \<and> wordsClose_with ar (ws ! i) (ws ! j)) ks))"
  using assms
proof (induction ks arbitrary: r u)
  case Nil
  show ?case by simp
next
  case (Cons j ks)
  have d: "distinct ks" and nj: "j \<notin> set ks"
    using Cons.prems by simp_all
  have same: "filter (\<lambda>k. k \<noteq> j \<and> k \<notin> u \<and> wordsClose_with ar (ws ! i) (ws ! k)) ks
            = filter (\<lambda>k. k \<notin> u \<and> wordsClose_with ar (ws ! i) (ws ! k)) ks"
    using nj by (intro filter_cong) auto
  have same_set: "{k \<in> set ks. k \<noteq> j \<and> k \<notin> u \<and> wordsClose_with ar (ws ! i) (ws ! k)}
            = {k \<in> set ks. k \<notin> u \<and> wordsClose_with ar (ws ! i) (ws ! k)}"
    using nj by auto
  show ?case
    by (simp add: regionStep_with_apply Cons.IH [OF d] same same_set)
qed

lemma words_foldl_addWord_with:
  "textRegion.words (foldl (addWord_with ar) r xs) = textRegion.words r @ xs"
  by (induction xs arbitrary: r) (simp_all add: addWord_with_def)

lemma growRegion_with_eq:
  "growRegion_with ar ws i used =
     (foldl (addWord_with ar) (seedRegion_with ar (ws ! i))
        (map ((!) ws)
           (filter (\<lambda>j. wordsClose_with ar (ws ! i) (ws ! j))
              (filter (\<lambda>k. k \<notin> used) [i + 1 ..< length ws]))),
      insert i used \<union> set (filter (\<lambda>j. wordsClose_with ar (ws ! i) (ws ! j))
              (filter (\<lambda>k. k \<notin> used) [i + 1 ..< length ws])))"
proof -
  have "filter (\<lambda>j. j \<notin> insert i used \<and> wordsClose_with ar (ws ! i) (ws ! j)) [i + 1 ..< length ws]
      = filter (\<lambda>j. wordsClose_with ar (ws ! i) (ws ! j))
              (filter (\<lambda>k. k \<notin> used) [i + 1 ..< length ws])"
    unfolding filter_filter by (intro filter_cong) auto
  then show ?thesis
    by (simp add: growRegion_with_def fold_regionStep_with)
qed

lemma fold_regionsStep_with_greedy:
  "map textRegion.words (fst (fold (regionsStep_with ar ws) [a ..< length ws] (regions, used))) =
     map textRegion.words regions
     @ map (map ((!) ws))
         (greedyGroups (\<lambda>i j. wordsClose_with ar (ws ! i) (ws ! j))
            (filter (\<lambda>k. k \<notin> used) [a ..< length ws]))"
proof (induction "length ws - a" arbitrary: a regions used)
  case 0
  then show ?case by simp
next
  case (Suc n)
  let ?near = "\<lambda>i j. wordsClose_with ar (ws ! i) (ws ! j)"
  have a: "a < length ws" and n: "n = length ws - (a + 1)"
    using Suc.hyps(2) by simp_all
  have upt: "[a ..< length ws] = a # [a + 1 ..< length ws]"
    using a by (simp add: upt_conv_Cons)
  show ?case
  proof (cases "a \<in> used")
    case True
    then show ?thesis
      using Suc.hyps(1) [OF n, of regions used]
      by (simp add: upt regionsStep_with_def)
  next
    case False
    let ?rem = "filter (\<lambda>k. k \<notin> used) [a + 1 ..< length ws]"
    let ?ms = "filter (?near a) ?rem"
    let ?used' = "insert a used \<union> set ?ms"
    let ?r = "foldl (addWord_with ar) (seedRegion_with ar (ws ! a)) (map ((!) ws) ?ms)"
    let ?r' = "?r\<lparr> textRegion.orientation := determineOrientation_with ar (textRegion.words ?r) \<rparr>"
    have step: "regionsStep_with ar ws a (regions, used) = (regions @ [?r'], ?used')"
      using False by (simp add: regionsStep_with_def growRegion_with_eq)
    have w: "textRegion.words ?r' = ws ! a # map ((!) ws) ?ms"
      by (simp add: words_foldl_addWord_with seedRegion_with_def)
    have rest: "filter (\<lambda>k. k \<notin> ?used') [a + 1 ..< length ws] = filter (\<lambda>j. \<not> ?near a j) ?rem"
      unfolding filter_filter by (intro filter_cong) auto
    have "map textRegion.words
            (fst (fold (regionsStep_with ar ws) [a ..< length ws] (regions, used)))
        = map textRegion.words
            (fst (fold (regionsStep_with ar ws) [a + 1 ..< length ws] (regions @ [?r'], ?used')))"
      by (simp only: upt fold_Cons comp_apply step)
    also have "\<dots> = map textRegion.words (regions @ [?r'])
         @ map (map ((!) ws)) (greedyGroups ?near (filter (\<lambda>j. \<not> ?near a j) ?rem))"
      by (simp only: Suc.hyps(1) [OF n] rest)
    also have "\<dots> = map textRegion.words regions
         @ map (map ((!) ws)) (greedyGroups ?near (a # ?rem))"
      by (simp only: map_append list.map w greedyGroups.simps append_assoc append_Cons append_Nil)
    also have "a # ?rem = filter (\<lambda>k. k \<notin> used) [a ..< length ws]"
      using False by (simp add: upt)
    finally show ?thesis .
  qed
qed

lemma groupWordsIntoRegions_with_greedy:
  "map textRegion.words (groupWordsIntoRegions_with ar ws) =
     map (map ((!) ws))
       (greedyGroups (\<lambda>i j. wordsClose_with ar (ws ! i) (ws ! j)) [0 ..< length ws])"
proof (cases "length ws = 0")
  case True
  then show ?thesis by (simp add: groupWordsIntoRegions_with_def)
next
  case False
  then show ?thesis
    using fold_regionsStep_with_greedy [of ar ws 0 "[]" "{}"]
    by (simp add: groupWordsIntoRegions_with_def)
qed

lemma two_groups:
  "greedyGroups near [0, Suc 0] = (if near 0 (Suc 0) then [[0, Suc 0]] else [[0], [Suc 0]])"
  by simp

lemma two_words:
  "map textRegion.words (groupWordsIntoRegions_with ar [w1, w2]) =
     (if wordsClose_with ar w1 w2 then [[w1, w2]] else [[w1], [w2]])"
proof -
  have "[0 ..< length [w1, w2]] = [0, Suc 0]"
    by (simp add: upt_rec)
  then show ?thesis
    by (simp only: groupWordsIntoRegions_with_greedy two_groups) simp
qed

lemma harry_potter_binary64:
  "wordDistance_with binary64 harry potter = 57.5"
  "fmul binary64 (avgWordHeight_with binary64 harry potter) 2 = 40"
proof -
  have s: "sqrt (13225 / 4) = 115 / 2"
    by (rule real_sqrt_unique) (simp_all add: power2_eq_square)
  show "wordDistance_with binary64 harry potter = 57.5"
    by (simp add: wordDistance_with_def wordCenterX_with_def wordCenterY_with_def binary64_ops
        harry_def potter_def fl64_eval s)
  show "fmul binary64 (avgWordHeight_with binary64 harry potter) 2 = 40"
    by (simp add: avgWordHeight_with_def wordHeight_with_def binary64_ops
        harry_def potter_def fl64_eval)
qed

lemma sqrt_words_binary64:
  "wordDistance_with binary64 sqrtWordA sqrtWordB = 6369051672525773 / 2 ^ 52"
  "fmul binary64 (avgWordHeight_with binary64 sqrtWordA sqrtWordB) 2 = 6369051672525773 / 2 ^ 52"
proof -
  show "wordDistance_with binary64 sqrtWordA sqrtWordB = 6369051672525773 / 2 ^ 52"
    by (simp add: wordDistance_with_def wordCenterX_with_def wordCenterY_with_def binary64_ops
        sqrtWordA_def sqrtWordB_def fl64_eval fl64_sqrt2)
  show "fmul binary64 (avgWordHeight_with binary64 sqrtWordA sqrtWordB) 2
      = 6369051672525773 / 2 ^ 52"
    by (simp add: avgWordHeight_with_def wordHeight_with_def binary64_ops
        sqrtWordA_def sqrtWordB_def fl64_eval)
qed

lemma sqrt_words_exact:
  "wordDistance sqrtWordA sqrtWordB = sqrt 2"
  "2 * avgWordHeight sqrtWordA sqrtWordB = 6369051672525773 / 2 ^ 52"
  by (simp_all add: wordDistance_def wordCenterX_def wordCenterY_def avgWordHeight_def
      wordHeight_def sqrtWordA_def sqrtWordB_def)

lemma sqrtWords_doubles:
  "boxDoubles (word.bbox sqrtWordA)" "boxDoubles (word.bbox sqrtWordB)"
  by (simp_all add: boxDoubles_def isDouble_def sqrtWordA_def sqrtWordB_def fl64_eval)

text \<open>
  Claim C6, as stated, fails. The centres of the scenario's two words, \<open>(25, 10)\<close> and
  \<open>(82.5, 10)\<close>, are 57.5 apart, not 55. And the test compares the distance and the
  threshold the machine computes: two words whose coordinates are doubles, with
  centres the square root of 2 apart and a threshold that is the double next above the
  square root of 2, are strictly closer than the threshold, yet the computed distance
  rounds up to the threshold and the code keeps them in two regions.
\<close>

theorem region_merge_counterexample:
  "wordDistance_with binary64 harry potter = 57.5
   \<and> wordDistance harry potter = 57.5
   \<and> wordDistance_with binary64 harry potter \<noteq> 55
   \<and> boxDoubles (word.bbox sqrtWordA) \<and> boxDoubles (word.bbox sqrtWordB)
   \<and> wordDistance sqrtWordA sqrtWordB < 2 * avgWordHeight sqrtWordA sqrtWordB
   \<and> map textRegion.words (groupWordsIntoRegions_with binary64 [sqrtWordA, sqrtWordB])
       = [[sqrtWordA], [sqrtWordB]]"
proof -
  have "wordDistance harry potter = 115 / 2"
    by (subst wordDistance_eq_iff)
      (simp_all add: wordCenterX_def wordCenterY_def harry_def potter_def power2_eq_square)
  then have e: "wordDistance harry potter = 57.5"
    by simp
  have "sqrt 2 < 6369051672525773 / 2 ^ 52"
    by (rule real_less_lsqrt) (simp_all add: power2_eq_square)
  then have x: "wordDistance sqrtWordA sqrtWordB < 2 * avgWordHeight sqrtWordA sqrtWordB"
    by (simp only: sqrt_words_exact)
  have m: "map textRegion.words (groupWordsIntoRegions_with binary64 [sqrtWordA, sqrtWordB])
       = [[sqrtWordA], [sqrtWordB]]"
    by (simp only: two_words wordsClose_with_distance sqrt_words_binary64) simp
  show ?thesis
    using e x m sqrtWords_doubles by (simp add: harry_potter_binary64)
qed

text \<open>
  Claim C6, amended: \<open>groupWordsIntoRegions\<close> groups the words greedily, in input
  order, by the test that the distance of the two box centres, as the machine computes
  it (centres, differences, squares, sum and square root each rounded), is strictly
  less than the computed mean of the two heights times 2: the regions' word lists are
  the groups in which each seed, the first word not yet in a region, takes every later
  word not yet in a region that passes the test with it. Two words form one region
  exactly when they pass the test, so at a computed distance equal to the computed
  threshold they stay apart; and the words Harry, box \<open>(0, 0, 50, 20)\<close>, and Potter, box
  \<open>(55, 0, 110, 20)\<close>, at distance 57.5 with the threshold 40, give two regions of one
  word each. With exact arithmetic the function is \<open>groupWordsIntoRegions\<close> of the first
  part. Whatever words are in a region already, the inner loop puts into the region
  seeded at word \<open>i\<close> the seed and then, in input order, the later words not yet in a
  region that pass the test with the seed.
\<close>

theorem region_merge_threshold:
  "map textRegion.words (groupWordsIntoRegions_with ar ws) =
     map (map ((!) ws))
       (greedyGroups
          (\<lambda>i j. wordDistance_with ar (ws ! i) (ws ! j)
                   < fmul ar (avgWordHeight_with ar (ws ! i) (ws ! j)) 2)
          [0 ..< length ws])
   \<and> map textRegion.words (groupWordsIntoRegions_with ar [w1, w2]) =
       (if wordDistance_with ar w1 w2 < fmul ar (avgWordHeight_with ar w1 w2) 2
        then [[w1, w2]] else [[w1], [w2]])
   \<and> map textRegion.words (groupWordsIntoRegions_with binary64 [harry, potter])
       = [[harry], [potter]]
   \<and> groupWordsIntoRegions_with exact ws = groupWordsIntoRegions ws
   \<and> textRegion.words (fst (growRegion_with ar ws i used)) =
       ws ! i # map ((!) ws)
         (filter (\<lambda>j. j \<notin> used \<and> wordDistance_with ar (ws ! i) (ws ! j)
                                   < fmul ar (avgWordHeight_with ar (ws ! i) (ws ! j)) 2)
            [i + 1 ..< length ws])"
proof (intro conjI)
  show "map textRegion.words (groupWordsIntoRegions_with ar ws) =
     map (map ((!) ws))
       (greedyGroups
          (\<lambda>i j. wordDistance_with ar (ws ! i) (ws ! j)
                   < fmul ar (avgWordHeight_with ar (ws ! i) (ws ! j)) 2)
          [0 ..< length ws])"
    by (simp only: groupWordsIntoRegions_with_greedy wordsClose_with_distance)
  show "map textRegion.words (groupWordsIntoRegions_with ar [w1, w2]) =
       (if wordDistance_with ar w1 w2 < fmul ar (avgWordHeight_with ar w1 w2) 2
        then [[w1, w2]] else [[w1], [w2]])"
    by (simp only: two_words wordsClose_with_distance)
  show "map textRegion.words (groupWordsIntoRegions_with binary64 [harry, potter])
       = [[harry], [potter]]"
    by (simp only: two_words wordsClose_with_distance harry_potter_binary64) simp
  show "groupWordsIntoRegions_with exact ws = groupWordsIntoRegions ws"
    by (rule groupWordsIntoRegions_exact)
  show "textRegion.words (fst (growRegion_with ar ws i used)) =
       ws ! i # map ((!) ws)
         (filter (\<lambda>j. j \<notin> used \<and> wordDistance_with ar (ws ! i) (ws ! j)
                                   < fmul ar (avgWordHeight_with ar (ws ! i) (ws ! j)) 2)
            [i + 1 ..< length ws])"
    by (simp add: growRegion_with_eq words_foldl_addWord_with seedRegion_with_def
        wordsClose_with_distance conj_commute)
qed

text \<open>
  In double precision two words 32 apart with the threshold at 40 make one region, two
  words exactly 40 apart make two.
\<close>

theorem region_merge_threshold_witness:
  "wordDistance_with binary64 harryNear potterNear = 32
   \<and> fmul binary64 (avgWordHeight_with binary64 harryNear potterNear) 2 = 40
   \<and> map textRegion.words (groupWordsIntoRegions_with binary64 [harryNear, potterNear])
       = [[harryNear, potterNear]]
   \<and> wordDistance_with binary64 harryNear potterAtThreshold = 40
   \<and> fmul binary64 (avgWordHeight_with binary64 harryNear potterAtThreshold) 2 = 40
   \<and> map textRegion.words (groupWordsIntoRegions_with binary64 [harryNear, potterAtThreshold])
       = [[harryNear], [potterAtThreshold]]"
proof -
  have d: "wordDistance_with binary64 harryNear potterNear = 32"
    "wordDistance_with binary64 harryNear potterAtThreshold = 40"
    by (simp_all add: wordDistance_with_def wordCenterX_with_def wordCenterY_with_def binary64_ops
        harryNear_def potterNear_def potterAtThreshold_def fl64_eval)
  have h: "fmul binary64 (avgWordHeight_with binary64 harryNear potterNear) 2 = 40"
    "fmul binary64 (avgWordHeight_with binary64 harryNear potterAtThreshold) 2 = 40"
    by (simp_all add: avgWordHeight_with_def wordHeight_with_def binary64_ops
        harryNear_def potterNear_def potterAtThreshold_def fl64_eval)
  note th = region_merge_threshold [of binary64 "[]" harryNear potterNear, THEN conjunct2,
      THEN conjunct1]
  note th2 = region_merge_threshold [of binary64 "[]" harryNear potterAtThreshold,
      THEN conjunct2, THEN conjunct1]
  have "map textRegion.words (groupWordsIntoRegions_with binary64 [harryNear, potterNear])
       = [[harryNear, potterNear]]"
    by (simp only: th d h) simp
  moreover have "map textRegion.words
        (groupWordsIntoRegions_with binary64 [harryNear, potterAtThreshold])
       = [[harryNear], [potterAtThreshold]]"
    by (simp only: th2 d h) simp
  ultimately show ?thesis
    using d h by simp
qed

subsection \<open>Spine grouper: the merge condition\<close>

text \<open>
  The inner loop merges the later unused regions that pass the alignment test with the
  seed; the candidates are the greedy grouping of the indices, and the result is the
  accepted cleaned candidates, sorted.
\<close>

lemma regionsAligned_with_condition:
  "regionsAligned_with ar r1 r2 \<longleftrightarrow> mergeCondition_with ar r1 r2"
  by (simp add: regionsAligned_with_def mergeCondition_with_def regionCenterX_with_def
      regionCenterY_with_def regionHeight_with_def Let_def)

lemma spineStep_with_apply:
  "spineStep_with ar rs i j (s, u) =
     (if j \<in> u then (s, u)
      else if regionsAligned_with ar (rs ! i) (rs ! j)
      then (addRegion_with ar (rs ! i) s (rs ! j), insert j u)
      else (s, u))"
  by (simp add: spineStep_with_def)

lemma fold_spineStep_with:
  assumes "distinct ks"
  shows "fold (spineStep_with ar rs i) ks (s, u) =
     (foldl (addRegion_with ar (rs ! i)) s
        (map ((!) rs) (filter (\<lambda>j. j \<notin> u \<and> regionsAligned_with ar (rs ! i) (rs ! j)) ks)),
      u \<union> set (filter (\<lambda>j. j \<notin> u \<and> regionsAligned_with ar (rs ! i) (rs ! j)) ks))"
  using assms
proof (induction ks arbitrary: s u)
  case Nil
  show ?case by simp
next
  case (Cons j ks)
  have d: "distinct ks" and nj: "j \<notin> set ks"
    using Cons.prems by simp_all
  have same: "filter (\<lambda>k. k \<noteq> j \<and> k \<notin> u \<and> regionsAligned_with ar (rs ! i) (rs ! k)) ks
            = filter (\<lambda>k. k \<notin> u \<and> regionsAligned_with ar (rs ! i) (rs ! k)) ks"
    using nj by (intro filter_cong) auto
  have same_set: "{k \<in> set ks. k \<noteq> j \<and> k \<notin> u \<and> regionsAligned_with ar (rs ! i) (rs ! k)}
            = {k \<in> set ks. k \<notin> u \<and> regionsAligned_with ar (rs ! i) (rs ! k)}"
    using nj by auto
  show ?case
    by (simp add: spineStep_with_apply Cons.IH [OF d] same same_set)
qed

lemma textRegions_foldl_addRegion_with:
  "bookSpine.textRegions (foldl (addRegion_with ar r1) s xs) = bookSpine.textRegions s @ xs"
  by (induction xs arbitrary: s) (simp_all add: addRegion_with_def)

lemma growSpine_with_eq:
  "growSpine_with ar rs i used =
     (foldl (addRegion_with ar (rs ! i)) (seedSpine (rs ! i))
        (map ((!) rs)
           (filter (\<lambda>j. regionsAligned_with ar (rs ! i) (rs ! j))
              (filter (\<lambda>k. k \<notin> used) [i + 1 ..< length rs]))),
      insert i used \<union> set (filter (\<lambda>j. regionsAligned_with ar (rs ! i) (rs ! j))
              (filter (\<lambda>k. k \<notin> used) [i + 1 ..< length rs])))"
proof -
  have "filter (\<lambda>j. j \<notin> insert i used \<and> regionsAligned_with ar (rs ! i) (rs ! j))
          [i + 1 ..< length rs]
      = filter (\<lambda>j. regionsAligned_with ar (rs ! i) (rs ! j))
              (filter (\<lambda>k. k \<notin> used) [i + 1 ..< length rs])"
    unfolding filter_filter by (intro filter_cong) auto
  then show ?thesis
    by (simp add: growSpine_with_def fold_spineStep_with)
qed

lemma fold_candidatesStep_with_greedy:
  "map bookSpine.textRegions
     (fst (fold (candidatesStep_with ar rs) [a ..< length rs] (spines, used))) =
     map bookSpine.textRegions spines
     @ map (map ((!) rs))
         (greedyGroups (\<lambda>i j. regionsAligned_with ar (rs ! i) (rs ! j))
            (filter (\<lambda>k. k \<notin> used) [a ..< length rs]))"
proof (induction "length rs - a" arbitrary: a spines used)
  case 0
  then show ?case by simp
next
  case (Suc n)
  let ?near = "\<lambda>i j. regionsAligned_with ar (rs ! i) (rs ! j)"
  have a: "a < length rs" and n: "n = length rs - (a + 1)"
    using Suc.hyps(2) by simp_all
  have upt: "[a ..< length rs] = a # [a + 1 ..< length rs]"
    using a by (simp add: upt_conv_Cons)
  show ?case
  proof (cases "a \<in> used")
    case True
    then show ?thesis
      using Suc.hyps(1) [OF n, of spines used]
      by (simp add: upt candidatesStep_with_def)
  next
    case False
    let ?rem = "filter (\<lambda>k. k \<notin> used) [a + 1 ..< length rs]"
    let ?ms = "filter (?near a) ?rem"
    let ?used' = "insert a used \<union> set ?ms"
    let ?c = "foldl (addRegion_with ar (rs ! a)) (seedSpine (rs ! a)) (map ((!) rs) ?ms)"
    have step: "candidatesStep_with ar rs a (spines, used) = (spines @ [?c], ?used')"
      using False by (simp add: candidatesStep_with_def growSpine_with_eq)
    have w: "bookSpine.textRegions ?c = rs ! a # map ((!) rs) ?ms"
      by (simp add: textRegions_foldl_addRegion_with seedSpine_def)
    have rest: "filter (\<lambda>k. k \<notin> ?used') [a + 1 ..< length rs] = filter (\<lambda>j. \<not> ?near a j) ?rem"
      unfolding filter_filter by (intro filter_cong) auto
    have "map bookSpine.textRegions
            (fst (fold (candidatesStep_with ar rs) [a ..< length rs] (spines, used)))
        = map bookSpine.textRegions
            (fst (fold (candidatesStep_with ar rs) [a + 1 ..< length rs] (spines @ [?c], ?used')))"
      by (simp only: upt fold_Cons comp_apply step)
    also have "\<dots> = map bookSpine.textRegions (spines @ [?c])
         @ map (map ((!) rs)) (greedyGroups ?near (filter (\<lambda>j. \<not> ?near a j) ?rem))"
      by (simp only: Suc.hyps(1) [OF n] rest)
    also have "\<dots> = map bookSpine.textRegions spines
         @ map (map ((!) rs)) (greedyGroups ?near (a # ?rem))"
      by (simp only: map_append list.map w greedyGroups.simps append_assoc append_Cons append_Nil)
    also have "a # ?rem = filter (\<lambda>k. k \<notin> used) [a ..< length rs]"
      using False by (simp add: upt)
    finally show ?thesis .
  qed
qed

lemma spineCandidates_with_greedy:
  "map bookSpine.textRegions (spineCandidates_with ar rs) =
     map (map ((!) rs))
       (greedyGroups (\<lambda>i j. regionsAligned_with ar (rs ! i) (rs ! j)) [0 ..< length rs])"
  using fold_candidatesStep_with_greedy [of ar rs 0 "[]" "{}"]
  by (simp add: spineCandidates_with_def)

lemma fold_spinesStep_with_candidates:
  assumes "fold (candidatesStep_with ar rs) ks (cs, used) = (cs', used')"
  shows "fold (spinesStep_with ar rs) ks (filter accepted (map cleanSpine cs), used)
       = (filter accepted (map cleanSpine cs'), used')"
  using assms
proof (induction ks arbitrary: cs used)
  case Nil
  then show ?case by simp
next
  case (Cons k ks)
  obtain cs1 used1 where s1: "candidatesStep_with ar rs k (cs, used) = (cs1, used1)"
    by (cases "candidatesStep_with ar rs k (cs, used)")
  have "spinesStep_with ar rs k (filter accepted (map cleanSpine cs), used)
      = (filter accepted (map cleanSpine cs1), used1)"
    using s1 by (auto simp: spinesStep_with_def candidatesStep_with_def split: prod.splits if_splits)
  moreover have "fold (candidatesStep_with ar rs) ks (cs1, used1) = (cs', used')"
    using Cons.prems s1 by simp
  ultimately show ?case
    using Cons.IH by simp
qed

lemma spines_of_candidates_with:
  "detectBookSpines_with ar rs =
     sort_key (spineCenterY_with ar) (filter accepted (map cleanSpine (spineCandidates_with ar rs)))"
proof -
  obtain cs' used' where
    f: "fold (candidatesStep_with ar rs) [0 ..< length rs] ([], {}) = (cs', used')"
    by (cases "fold (candidatesStep_with ar rs) [0 ..< length rs] ([], {})")
  show ?thesis
    using fold_spinesStep_with_candidates [OF f] f
    by (simp add: detectBookSpines_with_def spineCandidates_with_def)
qed

lemma two_regions_candidates:
  "spineCandidates_with ar [r1, r2] =
     (if regionsAligned_with ar r1 r2 then [addRegion_with ar r1 (seedSpine r1) r2]
      else [seedSpine r1, seedSpine r2])"
  by (simp add: spineCandidates_with_def candidatesStep_with_def growSpine_with_def
      spineStep_with_apply upt_rec)

lemma two_regions:
  "detectBookSpines_with ar [r1, r2] =
     (if mergeCondition_with ar r1 r2
      then filter accepted [cleanSpine (addRegion_with ar r1 (seedSpine r1) r2)]
      else sort_key (spineCenterY_with ar)
             (filter accepted [cleanSpine (seedSpine r1), cleanSpine (seedSpine r2)]))"
proof (cases "mergeCondition_with ar r1 r2")
  case True
  then have "spineCandidates_with ar [r1, r2] = [addRegion_with ar r1 (seedSpine r1) r2]"
    by (simp add: two_regions_candidates regionsAligned_with_condition)
  then show ?thesis
    using True by (simp add: spines_of_candidates_with)
next
  case False
  then have "spineCandidates_with ar [r1, r2] = [seedSpine r1, seedSpine r2]"
    by (simp add: two_regions_candidates regionsAligned_with_condition)
  then show ?thesis
    using False by (simp only: spines_of_candidates_with list.map if_False)
qed

lemma round_regions_binary64:
  "regionCenterX_with binary64 roundRegionA = 20 + 1 / 2 ^ 47"
  "regionCenterX_with binary64 roundRegionB = 70"
  "regionCenterY_with binary64 roundRegionA = 20"
  "regionCenterY_with binary64 roundRegionB = 20"
  "regionHeight_with binary64 roundRegionA = 40"
  "regionHeight_with binary64 roundRegionB = 40"
  by (simp_all add: regionCenterX_with_def regionCenterY_with_def regionHeight_with_def
      binary64_ops roundRegionA_def roundRegionB_def fl64_eval2 fl64_round_sum)

lemma round_regions_merge: "mergeCondition_with binary64 roundRegionA roundRegionB"
  by (simp add: mergeCondition_with_def round_regions_binary64 binary64_ops fl64_eval2)

lemma clean_alpha_gamma: "cleanBookTitle (js ''Alpha Gamma'') = js ''Alpha Gamma''"
  "cleanBookTitle (js ''Gamma Alpha'') = js ''Gamma Alpha''"
  "cleanBookTitle (js ''Alpha Gamma'') = js ''Alpha Gamma''"
  "cleanBookTitle (js ''Delta'') = js ''Delta''"
  by (simp_all add: cleanBookTitle_def js_def removeSpecial_def removeLeadingNumber_def trim_def
      isKept_def isSpace_def isDigit_def isWordChar_def)

lemma roundRegions_doubles:
  "boxDoubles (textRegion.bbox roundRegionA)" "boxDoubles (textRegion.bbox roundRegionB)"
  by (simp_all add: boxDoubles_def isDouble_def roundRegionA_def roundRegionB_def fl64_eval2)

text \<open>
  Claim C4, as stated, fails. Two regions whose coordinates are doubles have x-centres
  \<open>20 + 2^-47\<close> and \<open>70 + 2^-47\<close>, exactly 50 apart, so the condition of the claim does
  not hold; in double precision the second centre rounds to 70, the computed
  difference is below 50, and \<open>detectBookSpines\<close> merges the two regions into one
  spine.
\<close>

theorem spine_merge_counterexample:
  "boxDoubles (textRegion.bbox roundRegionA) \<and> boxDoubles (textRegion.bbox roundRegionB)
   \<and> \<bar>regionCenterX roundRegionA - regionCenterX roundRegionB\<bar> = 50
   \<and> \<not> mergeCondition roundRegionA roundRegionB
   \<and> \<bar>fsub binary64 (regionCenterX_with binary64 roundRegionA)
                      (regionCenterX_with binary64 roundRegionB)\<bar> < 50
   \<and> map bookSpine.textRegions (detectBookSpines_with binary64 [roundRegionA, roundRegionB])
       = [[roundRegionA, roundRegionB]]"
proof -
  have e: "\<bar>regionCenterX roundRegionA - regionCenterX roundRegionB\<bar> = 50"
    by (simp add: regionCenterX_def roundRegionA_def roundRegionB_def)
  then have n: "\<not> mergeCondition roundRegionA roundRegionB"
    by (simp add: mergeCondition_def)
  have c: "\<bar>fsub binary64 (regionCenterX_with binary64 roundRegionA)
                      (regionCenterX_with binary64 roundRegionB)\<bar> < 50"
    by (simp add: round_regions_binary64 binary64_ops fl64_eval2)
  have a: "accepted (cleanSpine (addRegion_with binary64 roundRegionA (seedSpine roundRegionA)
             roundRegionB))"
    by (simp add: accepted_def cleanSpine_def addRegion_with_def seedSpine_def binary64_ops
        roundRegionA_def roundRegionB_def fl64_eval)
      (simp add: clean_alpha_gamma [unfolded js_def, simplified] js_def)
  have "detectBookSpines_with binary64 [roundRegionA, roundRegionB]
      = [cleanSpine (addRegion_with binary64 roundRegionA (seedSpine roundRegionA) roundRegionB)]"
    using a by (simp only: two_regions round_regions_merge if_True filter.simps)
  then have m: "map bookSpine.textRegions
        (detectBookSpines_with binary64 [roundRegionA, roundRegionB])
       = [[roundRegionA, roundRegionB]]"
    by (simp add: cleanSpine_def addRegion_with_def seedSpine_def)
  show ?thesis
    using e n c m roundRegions_doubles by simp
qed

text \<open>
  Claim C4, amended: in \<open>detectBookSpines\<close> the alignment test of a seed region and a
  later region holds if and only if the absolute difference of the two x-centres, as
  the machine computes it, is less than 50 and the absolute difference of the computed
  y-centres is less than the computed mean of the two heights times 3; the test
  \<^verbatim>\<open>isHorizontallyAligned\<close> (y-centres less than 30 apart) is not part of it. The
  spines returned are the accepted cleaned candidates, sorted by y-centre, and the
  candidates' region lists are the groups in which each seed, the first region not yet
  in a spine, takes every later region not yet in a spine that passes the test with it.
  For two regions the result is the one merged spine when they pass the test, and the
  two single spines otherwise, each if accepted. With exact arithmetic the function is
  \<open>detectBookSpines\<close> of the first part. Whatever regions are in a spine already, the
  inner loop puts into the spine seeded at region \<open>i\<close> the seed and then, in input
  order, the later regions not yet in a spine that pass the test with the seed.
\<close>

theorem spine_merge_rule:
  "(regionsAligned_with ar r1 r2 \<longleftrightarrow>
      \<bar>fsub ar (regionCenterX_with ar r1) (regionCenterX_with ar r2)\<bar> < 50
      \<and> \<bar>fsub ar (regionCenterY_with ar r2) (regionCenterY_with ar r1)\<bar>
          < fmul ar (fdiv ar (fadd ar (regionHeight_with ar r1) (regionHeight_with ar r2)) 2) 3)
   \<and> detectBookSpines_with ar rs =
       sort_key (spineCenterY_with ar)
         (filter accepted (map cleanSpine (spineCandidates_with ar rs)))
   \<and> map bookSpine.textRegions (spineCandidates_with ar rs) =
       map (map ((!) rs))
         (greedyGroups (\<lambda>i j. mergeCondition_with ar (rs ! i) (rs ! j)) [0 ..< length rs])
   \<and> detectBookSpines_with ar [r1, r2] =
       (if mergeCondition_with ar r1 r2
        then filter accepted [cleanSpine (addRegion_with ar r1 (seedSpine r1) r2)]
        else sort_key (spineCenterY_with ar)
               (filter accepted [cleanSpine (seedSpine r1), cleanSpine (seedSpine r2)]))
   \<and> detectBookSpines_with exact rs = detectBookSpines rs
   \<and> bookSpine.textRegions (fst (growSpine_with ar rs i used)) =
       rs ! i # map ((!) rs)
         (filter (\<lambda>j. j \<notin> used \<and> mergeCondition_with ar (rs ! i) (rs ! j))
            [i + 1 ..< length rs])"
proof (intro conjI)
  show "regionsAligned_with ar r1 r2 \<longleftrightarrow>
      \<bar>fsub ar (regionCenterX_with ar r1) (regionCenterX_with ar r2)\<bar> < 50
      \<and> \<bar>fsub ar (regionCenterY_with ar r2) (regionCenterY_with ar r1)\<bar>
          < fmul ar (fdiv ar (fadd ar (regionHeight_with ar r1) (regionHeight_with ar r2)) 2) 3"
    by (simp only: regionsAligned_with_condition mergeCondition_with_def)
  show "detectBookSpines_with ar rs =
       sort_key (spineCenterY_with ar)
         (filter accepted (map cleanSpine (spineCandidates_with ar rs)))"
    by (rule spines_of_candidates_with)
  show "map bookSpine.textRegions (spineCandidates_with ar rs) =
       map (map ((!) rs))
         (greedyGroups (\<lambda>i j. mergeCondition_with ar (rs ! i) (rs ! j)) [0 ..< length rs])"
    by (simp only: spineCandidates_with_greedy regionsAligned_with_condition)
  show "detectBookSpines_with ar [r1, r2] =
       (if mergeCondition_with ar r1 r2
        then filter accepted [cleanSpine (addRegion_with ar r1 (seedSpine r1) r2)]
        else sort_key (spineCenterY_with ar)
               (filter accepted [cleanSpine (seedSpine r1), cleanSpine (seedSpine r2)]))"
    by (rule two_regions)
  show "detectBookSpines_with exact rs = detectBookSpines rs"
    by (rule detectBookSpines_exact)
  show "bookSpine.textRegions (fst (growSpine_with ar rs i used)) =
       rs ! i # map ((!) rs)
         (filter (\<lambda>j. j \<notin> used \<and> mergeCondition_with ar (rs ! i) (rs ! j))
            [i + 1 ..< length rs])"
    by (simp add: growSpine_with_eq textRegions_foldl_addRegion_with seedSpine_def
        regionsAligned_with_condition conj_commute)
qed

text \<open>
  In double precision a region 50 below the seed's centre is merged into its spine
  although the y-centres are not within 30; a region at the seed's height, within 30
  vertically, but 50 to the right is not.
\<close>

theorem spine_merge_rule_witness:
  "\<not> \<bar>fsub binary64 (regionCenterY_with binary64 gammaRegion)
                        (regionCenterY_with binary64 alphaRegion)\<bar> < 30
   \<and> mergeCondition_with binary64 gammaRegion alphaRegion
   \<and> map bookSpine.textRegions (detectBookSpines_with binary64 [gammaRegion, alphaRegion])
       = [[gammaRegion, alphaRegion]]
   \<and> \<bar>fsub binary64 (regionCenterY_with binary64 gammaRegion)
                      (regionCenterY_with binary64 sideRegion)\<bar> < 30
   \<and> \<not> mergeCondition_with binary64 gammaRegion sideRegion
   \<and> map bookSpine.textRegions (detectBookSpines_with binary64 [gammaRegion, sideRegion])
       = [[gammaRegion], [sideRegion]]"
proof -
  have cy: "regionCenterY_with binary64 gammaRegion = 120"
    "regionCenterY_with binary64 alphaRegion = 70"
    "regionCenterY_with binary64 sideRegion = 120"
    by (simp_all add: regionCenterY_with_def binary64_ops gammaRegion_def alphaRegion_def
        sideRegion_def mkRegion_def fl64_eval)
  have m1: "mergeCondition_with binary64 gammaRegion alphaRegion"
    by (simp add: mergeCondition_with_def regionCenterX_with_def regionCenterY_with_def
        regionHeight_with_def binary64_ops gammaRegion_def alphaRegion_def mkRegion_def fl64_eval)
  have m2: "\<not> mergeCondition_with binary64 gammaRegion sideRegion"
    by (simp add: mergeCondition_with_def regionCenterX_with_def regionCenterY_with_def
        regionHeight_with_def binary64_ops gammaRegion_def sideRegion_def mkRegion_def fl64_eval)
  have a1: "accepted (cleanSpine (addRegion_with binary64 gammaRegion (seedSpine gammaRegion)
             alphaRegion))"
    by (simp add: accepted_def cleanSpine_def addRegion_with_def seedSpine_def binary64_ops
        gammaRegion_def alphaRegion_def mkRegion_def fl64_eval)
      (simp add: clean_alpha_gamma [unfolded js_def, simplified] js_def)
  have a2: "accepted (cleanSpine (seedSpine gammaRegion))"
    "accepted (cleanSpine (seedSpine sideRegion))"
    by (simp_all add: accepted_def cleanSpine_def seedSpine_def gammaRegion_def sideRegion_def
        mkRegion_def clean_simple_titles clean_alpha_gamma)
      (simp_all add: js_def)
  have k: "spineCenterY_with binary64 (cleanSpine (seedSpine gammaRegion)) = 120"
    "spineCenterY_with binary64 (cleanSpine (seedSpine sideRegion)) = 120"
    by (simp_all add: spineCenterY_with_def cleanSpine_def seedSpine_def binary64_ops
        gammaRegion_def sideRegion_def mkRegion_def fl64_eval)
  note two = spine_merge_rule [of binary64 _ _ "[]", THEN conjunct2, THEN conjunct2,
      THEN conjunct2, THEN conjunct1]
  have "detectBookSpines_with binary64 [gammaRegion, alphaRegion]
      = [cleanSpine (addRegion_with binary64 gammaRegion (seedSpine gammaRegion) alphaRegion)]"
    using a1 m1 by (simp only: two if_True filter.simps)
  then have d1: "map bookSpine.textRegions
        (detectBookSpines_with binary64 [gammaRegion, alphaRegion])
       = [[gammaRegion, alphaRegion]]"
    by (simp add: cleanSpine_def addRegion_with_def seedSpine_def)
  have "detectBookSpines_with binary64 [gammaRegion, sideRegion]
      = sort_key (spineCenterY_with binary64)
          [cleanSpine (seedSpine gammaRegion), cleanSpine (seedSpine sideRegion)]"
    using a2 m2 by (simp only: two if_False filter.simps if_True)
  then have d2: "map bookSpine.textRegions
        (detectBookSpines_with binary64 [gammaRegion, sideRegion])
       = [[gammaRegion], [sideRegion]]"
    by (simp add: k) (simp add: cleanSpine_def seedSpine_def)
  show ?thesis
    using m1 m2 d1 d2 by (simp add: cy binary64_ops fl64_eval)
qed

end
